theory Spec2Isabelle
  imports Main "HOL-Library.Word"
begin

unbundle bit_operations_syntax

section \<open>Machine types and outcomes\<close>

text \<open>
  The reader is C++ (\<^verbatim>\<open>src/src/MobiBook.cpp\<close>). Its fixed-width integers are words;
  positions inside a buffer and lengths of buffers are natural numbers. \<^verbatim>\<open>size_t\<close> appears
  as a word only where the code's arithmetic on it can wrap (\<^verbatim>\<open>ExtraDataSize\<close>). It is taken
  64 bits wide, and the host little-endian, as the code's own byte swaps assume.

  \<^verbatim>\<open>assert\<close> is the C macro: it is compiled out of a release build (\<^verbatim>\<open>NDEBUG\<close>) and the
  code keeps an explicit \<^verbatim>\<open>if\<close> wherever it wants a check to survive, so the functions below
  follow the \<^verbatim>\<open>if\<close>s and not the assertions. Where the code then reads or writes outside the
  object it was given, the result is \<open>Undefined\<close>.
\<close>

type_synonym uint8 = "8 word"
type_synonym uint16 = "16 word"
type_synonym uint32 = "32 word"
type_synonym size_t = "64 word"

datatype 'a outcome =
    Ok 'a        \<comment> \<open>the function returned normally\<close>
  | Fail         \<comment> \<open>the function's error return: \<^verbatim>\<open>-1\<close>, \<^verbatim>\<open>false\<close> or \<^verbatim>\<open>NULL\<close>\<close>
  | Undefined    \<comment> \<open>a read or write outside the object: undefined behaviour in C\<close>

section \<open>PalmDOC decompression\<close>

text \<open>
  \<^verbatim>\<open>while (c > 0) { *dst++ = *src++; --c; }\<close>: the literal run of \<^verbatim>\<open>PalmdocUncompress\<close>.
\<close>

fun copy_literal :: "uint8 list \<Rightarrow> nat \<Rightarrow> uint8 list \<Rightarrow> nat \<Rightarrow> nat \<Rightarrow> uint8 list" where
  "copy_literal src s dst d c =
     (if c = 0 then dst else copy_literal src (s + 1) (dst[d := src ! s]) (d + 1) (c - 1))"

declare copy_literal.simps [simp del]

text \<open>
  \<^verbatim>\<open>while (n > 0) { *dst++ = *dstBack++; --n; }\<close> with \<^verbatim>\<open>dstBack = dst - back\<close>: one byte
  at a time, so a byte written by this loop can be read again by it.
\<close>

fun copy_back :: "uint8 list \<Rightarrow> nat \<Rightarrow> nat \<Rightarrow> nat \<Rightarrow> uint8 list" where
  "copy_back dst d back n =
     (if n = 0 then dst else copy_back (dst[d := dst ! (d - back)]) (d + 1) back (n - 1))"

declare copy_back.simps [simp del]

text \<open>
  One pass through the body of \<^verbatim>\<open>while (src < srcEnd)\<close>, entered with \<open>s < length src\<close>.
  \<open>src\<close> is the extent \<^verbatim>\<open>[src, srcEnd)\<close>, \<open>s\<close> the read position, \<open>dst\<close> the whole
  destination buffer (its length is \<^verbatim>\<open>dstLen\<close>) and \<open>d\<close> the write position. The result is
  the next \<open>(s, dst, d)\<close>, \<open>Fail\<close> for \<^verbatim>\<open>return -1\<close>, or \<open>Undefined\<close> where the code, with
  only an assertion in the way, reads past \<^verbatim>\<open>srcEnd\<close>, reads before \<^verbatim>\<open>dstOrig\<close> or writes
  past \<^verbatim>\<open>dstEnd\<close>.
\<close>

definition palm_token :: "uint8 list \<Rightarrow> nat \<Rightarrow> uint8 list \<Rightarrow> nat \<Rightarrow> (nat \<times> uint8 list \<times> nat) outcome" where
  "palm_token src s dst d =
     (let dstLeft = length dst - d in
      if dstLeft = 0 then Fail
      else
        let c = unat (src ! s) in
        if 1 \<le> c \<and> c \<le> 8 then
          (if dstLeft < c then Fail
           else if length src < s + 1 + c then Undefined
           else Ok (s + 1 + c, copy_literal src (s + 1) dst d c, d + c))
        else if c < 128 then Ok (s + 1, dst[d := src ! s], d + 1)
        else if 192 \<le> c then
          (if dstLeft < 2 then Fail
           else Ok (s + 1, dst[d := 0x20, d + 1 := (src ! s) XOR 0x80], d + 2))
        else if s + 1 < length src then
          (let w = push_bit 8 (ucast (src ! s) :: uint32) OR ucast (src ! (s + 1));
               back = unat (drop_bit 3 w AND 0x07ff);
               n = unat (w AND 7) + 3
           in if d < back then Undefined
              else if dstLeft < n then Undefined
              else Ok (s + 2, copy_back dst d back n, d + n))
        else Ok (s + 1, dst, d))"

lemma palm_token_advances:
  "palm_token src s dst d = Ok (s', dst', d') \<Longrightarrow> s < s'"
  by (auto simp: palm_token_def Let_def split: if_splits)

text \<open>
  The loop, and after it \<^verbatim>\<open>if (dst < dstEnd) *dst = 0; return dst - dstOrig;\<close>. The value is
  the returned count together with the buffer.
\<close>

function PalmdocUncompress_loop ::
  "uint8 list \<Rightarrow> nat \<Rightarrow> uint8 list \<Rightarrow> nat \<Rightarrow> (nat \<times> uint8 list) outcome" where
  "PalmdocUncompress_loop src s dst d =
     (if s < length src then
        (case palm_token src s dst d of
           Ok (s', dst', d') \<Rightarrow> PalmdocUncompress_loop src s' dst' d'
         | Fail \<Rightarrow> Fail
         | Undefined \<Rightarrow> Undefined)
      else Ok (d, if d < length dst then dst[d := 0] else dst))"
  by pat_completeness auto
termination
  by (relation "measure (\<lambda>(src, s, dst, d). length src - s)")
     (auto dest: palm_token_advances)

declare PalmdocUncompress_loop.simps [simp del]

text \<open>\<^verbatim>\<open>PalmdocUncompress(src, srcLen, dst, dstLen)\<close>; \<open>dst\<close> is the buffer as the caller hands it over.\<close>

definition PalmdocUncompress :: "uint8 list \<Rightarrow> uint8 list \<Rightarrow> (nat \<times> uint8 list) outcome" where
  "PalmdocUncompress src dst = PalmdocUncompress_loop src 0 dst 0"


text \<open>
  The three places where \<^verbatim>\<open>PalmdocUncompress\<close> returns \<^verbatim>\<open>-1\<close>, for the token that starts with
  the byte \<open>c\<close> when \<open>dstLeft\<close> bytes of the destination are free: \<^verbatim>\<open>if (0 == dstLeft)\<close>,
  \<^verbatim>\<open>if (dstLeft < c)\<close> in the literal run, \<^verbatim>\<open>if (dstLeft < 2)\<close> in the space pair.
\<close>

definition palm_no_room :: "uint8 \<Rightarrow> nat \<Rightarrow> bool" where
  "palm_no_room c dstLeft =
     (dstLeft = 0 \<or> (1 \<le> unat c \<and> unat c \<le> 8 \<and> dstLeft < unat c) \<or> (192 \<le> unat c \<and> dstLeft < 2))"

text \<open>The states \<open>(s, dst, d)\<close> the loop passes through, from a given one.\<close>

inductive palm_reaches :: "uint8 list \<Rightarrow> nat \<times> uint8 list \<times> nat \<Rightarrow> nat \<times> uint8 list \<times> nat \<Rightarrow> bool"
  for src :: "uint8 list" where
    here: "palm_reaches src st st"
  | token: "s < length src \<Longrightarrow> palm_token src s dst d = Ok st' \<Longrightarrow> palm_reaches src st' st'' \<Longrightarrow>
            palm_reaches src (s, dst, d) st''"

section \<open>Trailer stripping\<close>

text \<open>
  The inner loop of \<^verbatim>\<open>ExtraDataSize\<close>: the four bytes \<^verbatim>\<open>recData[newLen - 4 + j]\<close>, folded
  into the \<^verbatim>\<open>uint32 n\<close>. \<^verbatim>\<open>newLen\<close> is a \<^verbatim>\<open>size_t\<close>, so \<^verbatim>\<open>newLen - 4 + j\<close> wraps when
  \<^verbatim>\<open>newLen < 4\<close>; an index that is not below the record's length is outside the record.
\<close>

definition trailer_step :: "uint32 \<Rightarrow> uint8 \<Rightarrow> uint32" where
  "trailer_step n v = push_bit 7 (if v AND 0x80 \<noteq> 0 then 0 else n) OR ucast (v AND 0x7f)"

definition trailer_n :: "uint8 list \<Rightarrow> size_t \<Rightarrow> uint32 outcome" where
  "trailer_n recData newLen =
     (let idx = map (\<lambda>j. unat (newLen - 4 + j)) [0, 1, 2, 3] in
      if list_ex (\<lambda>i. length recData \<le> i) idx then Undefined
      else Ok (foldl trailer_step 0 (map (\<lambda>i. recData ! i) idx)))"

text \<open>
  \<^verbatim>\<open>for (size_t i = 0; i < trailersCount; i++) { ...; assert(newLen > n); newLen -= n; }\<close>:
  the subtraction is not guarded.
\<close>

fun strip_trailers :: "uint8 list \<Rightarrow> size_t \<Rightarrow> nat \<Rightarrow> size_t outcome" where
  "strip_trailers recData newLen trailersCount =
     (if trailersCount = 0 then Ok newLen
      else
        (case trailer_n recData newLen of
           Ok n \<Rightarrow> strip_trailers recData (newLen - ucast n) (trailersCount - 1)
         | Fail \<Rightarrow> Fail
         | Undefined \<Rightarrow> Undefined))"

declare strip_trailers.simps [simp del]

text \<open>
  The multibyte step: \<^verbatim>\<open>if (newLen > 0) { uint8 n = (recData[newLen-1] & 3) + 1;
  assert(newLen >= n); newLen -= n; }\<close>.
\<close>

definition strip_multibyte :: "uint8 list \<Rightarrow> size_t \<Rightarrow> bool \<Rightarrow> size_t outcome" where
  "strip_multibyte recData newLen multibyte =
     (if multibyte \<and> 0 < newLen then
        (if length recData \<le> unat (newLen - 1) then Undefined
         else Ok (newLen - ucast ((recData ! unat (newLen - 1) AND 3) + 1)))
      else Ok newLen)"

text \<open>
  \<open>visible_len\<close> is \<^verbatim>\<open>newLen\<close> at the end of \<^verbatim>\<open>ExtraDataSize\<close>, the length that is left of
  the record; \<^verbatim>\<open>ExtraDataSize\<close> returns \<^verbatim>\<open>recLen - newLen\<close>. \<^verbatim>\<open>recLen\<close> is the length of
  \<open>recData\<close>.
\<close>

definition visible_len :: "uint8 list \<Rightarrow> nat \<Rightarrow> bool \<Rightarrow> size_t outcome" where
  "visible_len recData trailersCount multibyte =
     (case strip_trailers recData (of_nat (length recData)) trailersCount of
        Ok newLen \<Rightarrow> strip_multibyte recData newLen multibyte
      | Fail \<Rightarrow> Fail
      | Undefined \<Rightarrow> Undefined)"

definition ExtraDataSize :: "uint8 list \<Rightarrow> nat \<Rightarrow> bool \<Rightarrow> size_t outcome" where
  "ExtraDataSize recData trailersCount multibyte =
     (case visible_len recData trailersCount multibyte of
        Ok newLen \<Rightarrow> Ok (of_nat (length recData) - newLen)
      | Fail \<Rightarrow> Fail
      | Undefined \<Rightarrow> Undefined)"

section \<open>HUFF/CDIC decompression\<close>

text \<open>
  \<^verbatim>\<open>ReadBeU16\<close>, and a 32-bit field as it reads after \<^verbatim>\<open>SwapU32\<close> on the little-endian host
  the macros \<^verbatim>\<open>BEtoHs\<close> and \<^verbatim>\<open>BEtoHl\<close> are written for: the big-endian value of the bytes.
\<close>

definition ReadBeU16 :: "uint8 list \<Rightarrow> nat \<Rightarrow> uint16" where
  "ReadBeU16 d i = push_bit 8 (ucast (d ! i)) OR ucast (d ! (i + 1))"

definition ReadBeU32 :: "uint8 list \<Rightarrow> nat \<Rightarrow> uint32" where
  "ReadBeU32 d i =
     push_bit 24 (ucast (d ! i)) OR push_bit 16 (ucast (d ! (i + 1))) OR
     push_bit 8 (ucast (d ! (i + 2))) OR ucast (d ! (i + 3))"

text \<open>
  Modelled from the spec: the class \<^verbatim>\<open>BitReader\<close> (\<^verbatim>\<open>BitReader.h\<close>) is not among the sources.
  The spec has it as a most-significant-bit-first cursor over a byte slice: \<^verbatim>\<open>BitsLeft\<close> is the
  number of bits from the cursor to the end, \<^verbatim>\<open>Peek(n)\<close> the next \<open>n\<close> bits, zero-padded at
  the end of the buffer, \<^verbatim>\<open>Eat(n)\<close> moves the cursor by \<open>n\<close> bits. The reader is the slice
  \<open>src\<close> and the cursor \<open>pos\<close>.
\<close>

definition bit_at :: "uint8 list \<Rightarrow> nat \<Rightarrow> bool" where
  "bit_at src i = (i < 8 * length src \<and> bit (src ! (i div 8)) (7 - i mod 8))"

definition Peek :: "uint8 list \<Rightarrow> nat \<Rightarrow> nat \<Rightarrow> uint32" where
  "Peek src pos n =
     foldl (\<lambda>acc i. push_bit 1 acc OR (if bit_at src (pos + i) then 1 else 0)) 0 [0..<n]"

definition BitsLeft :: "uint8 list \<Rightarrow> nat \<Rightarrow> nat" where
  "BitsLeft src pos = 8 * length src - pos"

text \<open>
  The members of \<^verbatim>\<open>HuffDicDecompressor\<close>. \<^verbatim>\<open>cacheTable\<close> and \<^verbatim>\<open>baseTable\<close> are the 256 and
  the 64 entries \<^verbatim>\<open>SetHuffData\<close> byte-swaps. \<^verbatim>\<open>dicts\<close> holds the slices that
  \<^verbatim>\<open>AddCdicData\<close> has stored, in order: \<^verbatim>\<open>dictsCount\<close> is their number and \<^verbatim>\<open>dictSize[i]\<close>
  the length of the \<open>i\<close>-th; the entries of the C array from \<^verbatim>\<open>dictsCount\<close> on were never
  written.
\<close>

record HuffDicDecompressor =
  cacheTable :: "uint32 list"
  baseTable :: "uint32 list"
  dicts :: "uint8 list list"
  code_length :: uint32

definition dictsCount :: "HuffDicDecompressor \<Rightarrow> nat" where
  "dictsCount h = length (dicts h)"

definition dictSize :: "HuffDicDecompressor \<Rightarrow> nat \<Rightarrow> nat" where
  "dictSize h i = length (dicts h ! i)"

text \<open>The constructor: no tables, no dictionary, \<^verbatim>\<open>code_length(0)\<close>.\<close>

definition HuffDicDecompressor_new :: HuffDicDecompressor where
  "HuffDicDecompressor_new = \<lparr>cacheTable = [], baseTable = [], dicts = [], code_length = 0\<rparr>"

text \<open>
  The \<^verbatim>\<open>do ... while (baseVal > code)\<close> of \<^verbatim>\<open>Decompress\<close>, entered with \<^verbatim>\<open>codeLen\<close>
  already decremented. When the loop comes round with \<^verbatim>\<open>codeLen = 32\<close> it reads
  \<^verbatim>\<open>baseTable[64]\<close> and shifts by \<^verbatim>\<open>32 - 33\<close> before it can reach its own
  \<^verbatim>\<open>codeLen > 32\<close> test.
\<close>

function base_scan :: "uint32 list \<Rightarrow> uint32 \<Rightarrow> nat \<Rightarrow> (uint32 \<times> nat) outcome" where
  "base_scan tbl bits codeLen =
     (if 32 \<le> codeLen \<or> length tbl \<le> codeLen * 2 + 1 then Undefined
      else
        let baseVal = tbl ! (codeLen * 2);
            code = drop_bit (32 - (codeLen + 1)) bits;
            codeLen' = codeLen + 1
        in if 32 < codeLen' then Fail
           else if code < baseVal then base_scan tbl bits codeLen'
           else Ok (tbl ! (1 + (codeLen' - 1) * 2) - drop_bit (32 - codeLen') bits, codeLen'))"
  by pat_completeness auto
termination
  by (relation "measure (\<lambda>(tbl, bits, codeLen). 32 - codeLen)") auto

declare base_scan.simps [simp del]

text \<open>
  From \<^verbatim>\<open>uint32 v = cacheTable[bits >> 24]\<close> to the value of \<^verbatim>\<open>code\<close> handed to
  \<^verbatim>\<open>DecodeOne\<close>, with the \<^verbatim>\<open>codeLen\<close> that becomes \<^verbatim>\<open>bitsConsumed\<close>.
\<close>

definition huff_code :: "HuffDicDecompressor \<Rightarrow> uint32 \<Rightarrow> (uint32 \<times> nat) outcome" where
  "huff_code h bits =
     (let i = unat (drop_bit 24 bits) in
      if length (cacheTable h) \<le> i then Undefined
      else
        let v = cacheTable h ! i; codeLen = unat (v AND 0x1f) in
        if codeLen = 0 then Fail
        else if v AND 0x80 \<noteq> 0 then Ok (drop_bit 8 v - drop_bit (32 - codeLen) bits, codeLen)
        else base_scan (baseTable h) bits (codeLen - 1))"

lemma base_scan_pos: "base_scan tbl bits codeLen = Ok (code, n) \<Longrightarrow> 0 < n"
proof (induction tbl bits codeLen rule: base_scan.induct)
  case (1 tbl bits codeLen)
  then show ?case
    by (subst (asm) (2) base_scan.simps) (auto simp: Let_def split: if_splits)
qed

lemma huff_code_pos: "huff_code h bits = Ok (code, n) \<Longrightarrow> 0 < n"
  by (auto simp: huff_code_def Let_def split: if_splits dest: base_scan_pos)

text \<open>
  \<^verbatim>\<open>Decompress\<close> and \<^verbatim>\<open>DecodeOne\<close> call each other: a symbol whose length has bit 15 clear
  is decompressed by a nested \<^verbatim>\<open>Decompress\<close>, and nothing bounds the nesting. \<open>stack\<close> is
  the number of nested calls the C stack has room for; running out of it is \<open>Undefined\<close>.

  \<open>dst\<close> is the whole destination buffer and \<open>d\<close> the write position: \<^verbatim>\<open>dstLeft\<close> is
  \<open>length dst - d\<close> throughout, since both functions move \<^verbatim>\<open>dst\<close> and \<^verbatim>\<open>dstLeft\<close> together.
  \<open>Decompress_loop\<close> is the \<^verbatim>\<open>for (;;)\<close> with the reader at \<open>pos\<close> and \<^verbatim>\<open>bitsConsumed\<close> still
  to eat. In \<open>DecodeOne\<close>, \<open>Fail\<close> is \<^verbatim>\<open>return false\<close>; \<open>Undefined\<close> is a shift by the width of
  the type or more (\<^verbatim>\<open>code >> code_length\<close>, and \<^verbatim>\<open>(1 << code_length) - 1\<close> on an \<^verbatim>\<open>int\<close>), a
  read of \<^verbatim>\<open>dicts[dict]\<close> that was never written, or a read outside the slice \<^verbatim>\<open>dicts[dict]\<close>
  of \<^verbatim>\<open>dictSize[dict]\<close> bytes (the two bytes of \<^verbatim>\<open>ReadBeU16\<close>, the extent handed to the nested
  \<^verbatim>\<open>Decompress\<close>, the bytes of \<^verbatim>\<open>memcpy\<close>).
\<close>

function Decompress_loop ::
    "nat \<Rightarrow> HuffDicDecompressor \<Rightarrow> uint8 list \<Rightarrow> nat \<Rightarrow> nat \<Rightarrow> uint8 list \<Rightarrow> nat \<Rightarrow> (uint8 list \<times> nat) outcome"
  and DecodeOne ::
    "nat \<Rightarrow> HuffDicDecompressor \<Rightarrow> uint32 \<Rightarrow> uint8 list \<Rightarrow> nat \<Rightarrow> (uint8 list \<times> nat) outcome"
where
  "Decompress_loop stack h src pos bitsConsumed dst d =
     (if BitsLeft src pos < bitsConsumed then Fail
      else
        let pos' = pos + bitsConsumed in
        if BitsLeft src pos' = 0 then Ok (dst, d)
        else
          let bits = Peek src pos' 32 in
          if BitsLeft src pos' < 8 \<and> bits = 0 then Ok (dst, d)
          else
            (case huff_code h bits of
               Ok (code, codeLen) \<Rightarrow>
                 (case DecodeOne stack h code dst d of
                    Ok (dst', d') \<Rightarrow> Decompress_loop stack h src pos' codeLen dst' d'
                  | Fail \<Rightarrow> Fail
                  | Undefined \<Rightarrow> Undefined)
             | Fail \<Rightarrow> Fail
             | Undefined \<Rightarrow> Undefined))"
| "DecodeOne stack h code dst d =
     (let cl = unat (code_length h) in
      if 32 \<le> cl then Undefined
      else
        let dict = unat (ucast (drop_bit cl code) :: uint16) in
        if dictsCount h < dict then Fail
        else if 31 \<le> cl then Undefined
        else if dictsCount h \<le> dict then Undefined
        else
          let dic = dicts h ! dict;
              idx = unat (code AND mask cl) * 2
          in
          if dictSize h dict \<le> idx + 1 then Undefined
          else
            let offset = unat (ReadBeU16 dic idx) in
            if dictSize h dict < offset then Fail
            else if dictSize h dict \<le> offset + 1 then Undefined
            else
              let symLen = ReadBeU16 dic offset;
                  p = offset + 2
              in
              if symLen AND 0x8000 = 0 then
                (if dictSize h dict < p + unat symLen then Undefined
                 else
                   (case stack of
                      0 \<Rightarrow> Undefined
                    | Suc k \<Rightarrow> Decompress_loop k h (take (unat symLen) (drop p dic)) 0 0 dst d))
              else
                let n = unat (symLen AND 0x7fff) in
                if 127 < n then Fail
                else if length dst - d < n then Fail
                else if dictSize h dict < p + n then Undefined
                else Ok (take d dst @ take n (drop p dic) @ drop (d + n) dst, d + n))"
  by pat_completeness auto
termination
proof (relation "measures
    [\<lambda>x. case x of Inl (stack, h, src, pos, bitsConsumed, dst, d) \<Rightarrow> stack
                  | Inr (stack, h, code, dst, d) \<Rightarrow> stack,
     \<lambda>x. case x of Inl _ \<Rightarrow> 1 | Inr _ \<Rightarrow> 0,
     \<lambda>x. case x of Inl (stack, h, src, pos, bitsConsumed, dst, d) \<Rightarrow> 8 * length src - (pos + bitsConsumed)
                  | Inr _ \<Rightarrow> 0]", goal_cases)
  case 1
  show ?case by simp
next
  case 2
  then show ?case by simp
next
  case 3
  then show ?case by (auto simp: BitsLeft_def dest: huff_code_pos)
next
  case 4
  then show ?case by simp
qed

declare Decompress_loop.simps [simp del] DecodeOne.simps [simp del]

text \<open>
  \<^verbatim>\<open>Decompress(src, srcSize, dst, dstSize)\<close>: the returned \<^verbatim>\<open>dstSize - dstLeft\<close>, with the
  buffer.
\<close>

definition Decompress ::
    "nat \<Rightarrow> HuffDicDecompressor \<Rightarrow> uint8 list \<Rightarrow> uint8 list \<Rightarrow> (nat \<times> uint8 list) outcome" where
  "Decompress stack h src dst =
     (case Decompress_loop stack h src 0 0 dst 0 of
        Ok (dst', d') \<Rightarrow> Ok (d', dst')
      | Fail \<Rightarrow> Fail
      | Undefined \<Rightarrow> Undefined)"

text \<open>
  \<^verbatim>\<open>strncmp(tag, p, n) == 0\<close> for a tag of \<open>n\<close> characters, none of them NUL: the \<open>n\<close> bytes at
  \<open>off\<close> are the tag.
\<close>

definition bytes_of :: "string \<Rightarrow> uint8 list" where
  "bytes_of s = map of_char s"

definition strncmp_eq :: "string \<Rightarrow> uint8 list \<Rightarrow> nat \<Rightarrow> bool" where
  "strncmp_eq tag d off = (take (length tag) (drop off d) = bytes_of tag)"

definition kHuffHeaderLen :: nat where "kHuffHeaderLen = 24"
definition kCacheDataLen :: nat where "kCacheDataLen = 256 * 4"
definition kBaseTableDataLen :: nat where "kBaseTableDataLen = 64 * 4"
definition kHuffRecordMinLen :: nat where
  "kHuffRecordMinLen = kHuffHeaderLen + kCacheDataLen + kBaseTableDataLen"
definition kCdicHeaderLen :: nat where "kCdicHeaderLen = 16"
definition kCdicsMax :: nat where "kCdicsMax = 32"

text \<open>
  \<^verbatim>\<open>SetHuffData\<close>: \<open>Ok\<close> with the tables set is \<^verbatim>\<open>return true\<close>, \<open>Fail\<close> is
  \<^verbatim>\<open>return false\<close>. The tag test is the code's \<^verbatim>\<open>if (!strncmp("HUFF", huffHdr->id, 4))
  return false;\<close>: \<^verbatim>\<open>strncmp\<close> is 0 on equal strings, so the negation is true, and the function
  returns false, when the record does begin with \<^verbatim>\<open>HUFF\<close>.
\<close>

definition SetHuffData :: "HuffDicDecompressor \<Rightarrow> uint8 list \<Rightarrow> HuffDicDecompressor outcome" where
  "SetHuffData h huffData =
     (if length huffData < kHuffRecordMinLen then Fail
      else
        let hdrLen = ReadBeU32 huffData 4;
            cacheOffset = ReadBeU32 huffData 8;
            baseTableOffset = ReadBeU32 huffData 12
        in
        if strncmp_eq ''HUFF'' huffData 0 then Fail
        else if unat hdrLen \<noteq> kHuffHeaderLen then Fail
        else if unat cacheOffset \<noteq> kHuffHeaderLen then Fail
        else if baseTableOffset \<noteq> cacheOffset + of_nat kCacheDataLen then Fail
        else
          Ok (h\<lparr>cacheTable := map (\<lambda>i. ReadBeU32 huffData (unat cacheOffset + 4 * i)) [0..<256],
                baseTable := map (\<lambda>i. ReadBeU32 huffData (unat baseTableOffset + 4 * i)) [0..<64]\<rparr>))"

text \<open>
  \<^verbatim>\<open>AddCdicData\<close>, with the same inverted tag test on \<^verbatim>\<open>CDIC\<close>. The header is read before
  anything is checked, so a record shorter than the header is read past its end. The code
  sets \<^verbatim>\<open>code_length\<close> before its tests; a failed call ends \<^verbatim>\<open>parseHeader\<close>, so only the
  successful call's state is kept here.
\<close>

definition AddCdicData :: "HuffDicDecompressor \<Rightarrow> uint8 list \<Rightarrow> HuffDicDecompressor outcome" where
  "AddCdicData h cdicData =
     (if length cdicData < kCdicHeaderLen then Undefined
      else
        let hdrLen = ReadBeU32 cdicData 4;
            codeLen = ReadBeU32 cdicData 12
        in
        if strncmp_eq ''CDIC'' cdicData 0 then Fail
        else if unat hdrLen \<noteq> kCdicHeaderLen then Fail
        else
          let size = length cdicData - unat hdrLen in
          if 32 \<le> unat codeLen then Undefined
          else if size \<le> 2 ^ unat codeLen then Fail
          else Ok (h\<lparr>code_length := codeLen, dicts := dicts h @ [take size (drop (unat hdrLen) cdicData)]\<rparr>))"

section \<open>The file and the book\<close>

text \<open>
  The input file: its bytes, and the offsets at which the operating system reports an error
  to \<^verbatim>\<open>fseek\<close> or \<^verbatim>\<open>fread\<close>. A read of \<open>n\<close> bytes at \<open>off\<close> yields them when they are all
  there and nothing fails; otherwise \<^verbatim>\<open>fread\<close> comes back short.

  \<^verbatim>\<open>readRecord\<close> reads a record into a buffer of the book that is larger than the record
  (\<^verbatim>\<open>bufStatic\<close>, or \<^verbatim>\<open>bufDynamic\<close> as an earlier, longer record has sized it) and returns the
  pointer to it. \<open>stale f recNo\<close> is what lies in that buffer behind the record \<open>recNo\<close> once
  it has been read, as far as earlier reads have written there: the buffer is not followed
  from read to read, the bytes are given with the file. Only \<^verbatim>\<open>ImageType\<close> looks at them.
\<close>

record input_file =
  content :: "uint8 list"
  io_error :: "nat list"
  stale :: "nat \<Rightarrow> uint8 list"

definition fread_at :: "input_file \<Rightarrow> nat \<Rightarrow> nat \<Rightarrow> uint8 list option" where
  "fread_at f off n =
     (if off \<in> set (io_error f) then None
      else if off + n \<le> length (content f) then Some (take n (drop off (content f)))
      else None)"

text \<open>
  \<^verbatim>\<open>struct ImageData\<close>: \<^verbatim>\<open>data\<close> is \<open>None\<close> for the null pointer. \<^verbatim>\<open>SAZA\<close> is \<^verbatim>\<open>calloc\<close>, so a
  fresh slot is all zero.
\<close>

record ImageData =
  data :: "uint8 list option"
  len :: nat
  imgtype :: "string option"

definition empty_slot :: ImageData where
  "empty_slot = \<lparr>data = None, len = 0, imgtype = None\<rparr>"

text \<open>
  The members of \<^verbatim>\<open>MobiBook\<close> that the functions below read or write. The class is declared
  in \<^verbatim>\<open>MobiBook.h\<close>, which is not among the sources: the member types are taken from their
  use. \<^verbatim>\<open>coverImage\<close> is initialised to \<^verbatim>\<open>-1\<close> and tested with \<^verbatim>\<open>coverImage >= 0\<close>, a signed
  integer. \<^verbatim>\<open>recHeaders\<close> holds the \<^verbatim>\<open>offset\<close> fields, \<^verbatim>\<open>numRecords + 1\<close> of them.
  \<^verbatim>\<open>images\<close> is the array of \<^verbatim>\<open>imagesCount\<close> slots once \<^verbatim>\<open>loadImages\<close> has allocated it, and
  empty while the pointer is null.
\<close>

record MobiBook =
  numRecords :: nat
  recHeaders :: "uint32 list"
  firstRecData :: "uint8 list"
  isMobi :: bool
  docRecCount :: nat
  compressionType :: nat
  docUncompressedSize :: nat
  doc :: "uint8 list"
  multibyte :: bool
  trailersCount :: nat
  imageFirstRec :: nat
  imagesCount :: nat
  images :: "ImageData list"
  coverImage :: int
  huffDic :: "HuffDicDecompressor option"
  textEncoding :: uint32
  locale' :: "uint32 option"
  title :: "uint8 list"
  author :: "uint8 list"
  publisher :: "uint8 list"

definition CP_UTF8 :: uint32 where "CP_UTF8 = 65001"

text \<open>
  The constructor \<^verbatim>\<open>MobiBook::MobiBook()\<close>. Its initialiser list has no \<^verbatim>\<open>locale\<close>: the member
  holds no value (\<open>None\<close>) until \<^verbatim>\<open>parseHeader\<close> has read a MOBI header.
\<close>

definition MobiBook_new :: MobiBook where
  "MobiBook_new =
     \<lparr>numRecords = 0, recHeaders = [], firstRecData = [], isMobi = False, docRecCount = 0,
      compressionType = 0, docUncompressedSize = 0, doc = [], multibyte = False,
      trailersCount = 0, imageFirstRec = 0, imagesCount = 0, images = [], coverImage = - 1,
      huffDic = None, textEncoding = CP_UTF8, locale' = None, title = [], author = [],
      publisher = []\<rparr>"

text \<open>
  \<^verbatim>\<open>getRecordSize\<close> and \<^verbatim>\<open>readRecord\<close>. The result \<open>Ok None\<close> is the null pointer (a failed
  \<^verbatim>\<open>fseek\<close> or a short \<^verbatim>\<open>fread\<close>); \<open>Undefined\<close> is a record number whose header, or whose
  successor's, lies outside \<^verbatim>\<open>recHeaders\<close>. The offsets are \<^verbatim>\<open>uint32\<close> and so is their
  difference.
\<close>

definition getRecordSize :: "MobiBook \<Rightarrow> nat \<Rightarrow> nat" where
  "getRecordSize b recNo = unat (recHeaders b ! (recNo + 1) - recHeaders b ! recNo)"

definition readRecord :: "input_file \<Rightarrow> MobiBook \<Rightarrow> nat \<Rightarrow> uint8 list option outcome" where
  "readRecord f b recNo =
     (if length (recHeaders b) \<le> recNo + 1 then Undefined
      else Ok (fread_at f (unat (recHeaders b ! recNo)) (getRecordSize b recNo)))"

subsection \<open>Images\<close>

definition EOF_REC :: uint32 where "EOF_REC = 0xe98e0d0a"
definition FLIS_REC :: uint32 where "FLIS_REC = 0x464c4953"
definition FCIS_REC :: uint32 where "FCIS_REC = 0x46434953"
definition FDST_REC :: uint32 where "FDST_REC = 0x46445354"
definition DATP_REC :: uint32 where "DATP_REC = 0x44415450"
definition SRCS_REC :: uint32 where "SRCS_REC = 0x53524353"
definition VIDE_REC :: uint32 where "VIDE_REC = 0x56494445"

text \<open>\<^verbatim>\<open>GetUpToFour\<close> on a record of at least one byte: the first byte, then up to three more.\<close>

definition GetUpToFour :: "uint8 list \<Rightarrow> uint32" where
  "GetUpToFour s = foldl (\<lambda>v c. push_bit 8 v OR ucast c) (ucast (hd s)) (take 3 (tl s))"

definition IsEofRecord :: "uint8 list \<Rightarrow> bool" where
  "IsEofRecord d = (length d = 4 \<and> GetUpToFour d = EOF_REC)"

definition KnownNonImageRec :: "uint8 list \<Rightarrow> bool" where
  "KnownNonImageRec d =
     (let sig = GetUpToFour d in
      sig = FLIS_REC \<or> sig = FCIS_REC \<or> sig = FDST_REC \<or> sig = DATP_REC \<or> sig = SRCS_REC \<or>
      sig = VIDE_REC)"

text \<open>
  \<^verbatim>\<open>TYPE(data, X)\<close> is \<^verbatim>\<open>!strncmp(data, X_MAGIC, 4)\<close>, with no look at \<^verbatim>\<open>dataLen\<close>. \<open>d\<close> is
  what can be read at \<^verbatim>\<open>data\<close>. \<^verbatim>\<open>strncmp\<close> stops at the first byte that differs; when \<open>d\<close>
  is shorter than four bytes and a prefix of the magic, it reads on past \<open>d\<close>.
\<close>

definition magic_eq :: "uint8 list \<Rightarrow> uint8 list \<Rightarrow> bool outcome" where
  "magic_eq d magic =
     (if 4 \<le> length d then Ok (take 4 d = magic)
      else if take (length d) magic = d then Undefined
      else Ok False)"

definition JPG_MAGIC :: "uint8 list" where "JPG_MAGIC = [0xff, 0xd8, 0xff, 0xe0]"
definition PNG_MAGIC :: "uint8 list" where "PNG_MAGIC = [0x89, 0x50, 0x4e, 0x47]"
definition GIF_MAGIC :: "uint8 list" where "GIF_MAGIC = [0x47, 0x49, 0x46, 0x38]"

definition ImageType :: "uint8 list \<Rightarrow> string outcome" where
  "ImageType d =
     (case magic_eq d JPG_MAGIC of
        Ok True \<Rightarrow> Ok ''.jpg''
      | Ok False \<Rightarrow>
          (case magic_eq d PNG_MAGIC of
             Ok True \<Rightarrow> Ok ''.png''
           | Ok False \<Rightarrow>
               (case magic_eq d GIF_MAGIC of
                  Ok True \<Rightarrow> Ok ''.gif''
                | Ok False \<Rightarrow> Ok ''.bin''
                | Fail \<Rightarrow> Fail
                | Undefined \<Rightarrow> Undefined)
           | Fail \<Rightarrow> Fail
           | Undefined \<Rightarrow> Undefined)
      | Fail \<Rightarrow> Fail
      | Undefined \<Rightarrow> Undefined)"

text \<open>
  \<^verbatim>\<open>loadImage\<close>: the boolean is the return value, \<^verbatim>\<open>false\<close> to stop loading images. (The
  allocations are taken to succeed.) \<^verbatim>\<open>ImageType\<close> is handed the pointer into the record
  buffer: behind the record it finds the bytes that the buffer still holds.
\<close>

definition loadImage :: "input_file \<Rightarrow> MobiBook \<Rightarrow> nat \<Rightarrow> (bool \<times> MobiBook) outcome" where
  "loadImage f b imageNo =
     (case readRecord f b (imageFirstRec b + imageNo) of
        Ok None \<Rightarrow> Ok (True, b)
      | Ok (Some imgData) \<Rightarrow>
          if length imgData = 0 then Ok (True, b)
          else if IsEofRecord imgData then Ok (False, b)
          else if KnownNonImageRec imgData then Ok (True, b)
          else if length (images b) \<le> imageNo then Undefined
          else
            (case ImageType (imgData @ stale f (imageFirstRec b + imageNo)) of
               Ok t \<Rightarrow>
                 Ok (True, b\<lparr>images := (images b)
                    [imageNo := \<lparr>data = Some imgData, len = length imgData, imgtype = Some t\<rparr>]\<rparr>)
             | Fail \<Rightarrow> Fail
             | Undefined \<Rightarrow> Undefined)
      | Fail \<Rightarrow> Fail
      | Undefined \<Rightarrow> Undefined)"

text \<open>
  \<^verbatim>\<open>for (size_t i = 0; i < imagesCount; i++) if (!loadImage(i)) return;\<close>, from \<open>i\<close> on;
  \<open>n\<close> is \<^verbatim>\<open>imagesCount\<close>.
\<close>

function loadImages_loop :: "input_file \<Rightarrow> nat \<Rightarrow> MobiBook \<Rightarrow> nat \<Rightarrow> MobiBook outcome" where
  "loadImages_loop f n b i =
     (if i < n then
        (case loadImage f b i of
           Ok (True, b') \<Rightarrow> loadImages_loop f n b' (i + 1)
         | Ok (False, b') \<Rightarrow> Ok b'
         | Fail \<Rightarrow> Fail
         | Undefined \<Rightarrow> Undefined)
      else Ok b)"
  by pat_completeness auto
termination
  by (relation "measure (\<lambda>(f, n, b, i). n - i)") auto

declare loadImages_loop.simps [simp del]

definition loadImages :: "input_file \<Rightarrow> MobiBook \<Rightarrow> MobiBook outcome" where
  "loadImages f b =
     (if imagesCount b = 0 then Ok b
      else loadImages_loop f (imagesCount b) (b\<lparr>images := replicate (imagesCount b) empty_slot\<rparr>) 0)"

text \<open>
  \<^verbatim>\<open>getImage\<close> and \<^verbatim>\<open>getCover\<close> return a pointer into \<^verbatim>\<open>images\<close> or the null pointer:
  \<open>Some i\<close> is \<^verbatim>\<open>&images[i]\<close>, \<open>None\<close> is \<^verbatim>\<open>NULL\<close>. An address outside the array is
  \<open>Undefined\<close>.
\<close>

definition getImage :: "MobiBook \<Rightarrow> nat \<Rightarrow> nat option outcome" where
  "getImage b imgRecIndex =
     (if imagesCount b < imgRecIndex \<or> imgRecIndex < 1 then Ok None
      else
        let i = imgRecIndex - 1 in
        if length (images b) \<le> i then Undefined
        else if data (images b ! i) = None \<or> len (images b ! i) = 0 then Ok None
        else Ok (Some i))"

text \<open>
  The loop of \<^verbatim>\<open>getCover\<close> over the first \<^verbatim>\<open>std::min(imagesCount, 2)\<close> slots, carrying
  \<^verbatim>\<open>coverImg\<close> and \<^verbatim>\<open>size\<close>.
\<close>

function cover_scan :: "ImageData list \<Rightarrow> nat \<Rightarrow> nat \<Rightarrow> nat \<Rightarrow> nat \<Rightarrow> nat \<times> nat" where
  "cover_scan imgs maxImageNo i coverImg size' =
     (if i < maxImageNo then
        (if data (imgs ! i) = None then cover_scan imgs maxImageNo (i + 1) coverImg size'
         else if size' < len (imgs ! i) then cover_scan imgs maxImageNo (i + 1) i (len (imgs ! i))
         else cover_scan imgs maxImageNo (i + 1) coverImg size')
      else (coverImg, size'))"
  by pat_completeness auto
termination
  by (relation "measure (\<lambda>(imgs, maxImageNo, i, coverImg, size'). maxImageNo - i)") auto

declare cover_scan.simps [simp del]

definition getCover :: "MobiBook \<Rightarrow> nat option outcome" where
  "getCover b =
     (if 0 \<le> coverImage b then
        (if nat (coverImage b) < length (images b) then Ok (Some (nat (coverImage b)))
         else Undefined)
      else
        let maxImageNo = min (imagesCount b) 2 in
        if length (images b) < maxImageNo then Undefined
        else
          (case cover_scan (images b) maxImageNo 0 0 0 of
             (coverImg, size') \<Rightarrow> if size' = 0 then Ok None else Ok (Some coverImg)))"

subsection \<open>parseHeader\<close>

text \<open>
  Modelled from the spec: the structs \<^verbatim>\<open>PdbHeader\<close> and \<^verbatim>\<open>PdbRecordHeader\<close> and their lengths
  are declared in \<^verbatim>\<open>MobiBook.h\<close>, which is not among the sources. The spec has a header of 78
  bytes whose bytes 60..67 are the type and creator tag and which holds the 16-bit record
  count at a fixed offset, here the two bytes before the record headers; a record header is
  8 bytes and starts with the 32-bit offset. All of them are big-endian.
\<close>

definition kPdbHeaderLen :: nat where "kPdbHeaderLen = 78"
definition kPdbRecordHeaderLen :: nat where "kPdbRecordHeaderLen = 8"
definition pdb_type_at :: nat where "pdb_type_at = 60"
definition pdb_numRecords_at :: nat where "pdb_numRecords_at = 76"

definition COMPRESSION_NONE :: nat where "COMPRESSION_NONE = 1"
definition COMPRESSION_PALM :: nat where "COMPRESSION_PALM = 2"
definition COMPRESSION_HUFF :: nat where "COMPRESSION_HUFF = 17480"
definition kPalmDocHeaderLen :: nat where "kPalmDocHeaderLen = 16"

definition IsValidCompression :: "nat \<Rightarrow> bool" where
  "IsValidCompression comprType =
     (COMPRESSION_NONE = comprType \<or> COMPRESSION_PALM = comprType \<or> COMPRESSION_HUFF = comprType)"

text \<open>
  \<^verbatim>\<open>SwapU16\<close> and \<^verbatim>\<open>SwapU32\<close> on a field of the record buffer reverse its bytes in place; the
  field is then read in the host's order, the low byte first.
\<close>

definition SwapU16 :: "uint8 list \<Rightarrow> nat \<Rightarrow> uint8 list" where
  "SwapU16 buf i = buf[i := buf ! (i + 1), i + 1 := buf ! i]"

definition SwapU32 :: "uint8 list \<Rightarrow> nat \<Rightarrow> uint8 list" where
  "SwapU32 buf i = buf[i := buf ! (i + 3), i + 1 := buf ! (i + 2), i + 2 := buf ! (i + 1), i + 3 := buf ! i]"

definition field16 :: "uint8 list \<Rightarrow> nat \<Rightarrow> uint16" where
  "field16 buf i = push_bit 8 (ucast (buf ! (i + 1))) OR ucast (buf ! i)"

definition field32 :: "uint8 list \<Rightarrow> nat \<Rightarrow> uint32" where
  "field32 buf i =
     push_bit 24 (ucast (buf ! (i + 3))) OR push_bit 16 (ucast (buf ! (i + 2))) OR
     push_bit 8 (ucast (buf ! (i + 1))) OR ucast (buf ! i)"

text \<open>
  From the first \<^verbatim>\<open>fread\<close> to the check of the offsets: the book with \<^verbatim>\<open>isMobi\<close>, the record
  count and the offsets, the file's length after them.
\<close>

definition parse_pdb :: "input_file \<Rightarrow> MobiBook outcome" where
  "parse_pdb f =
     (case fread_at f 0 kPdbHeaderLen of
        None \<Rightarrow> Fail
      | Some hdr \<Rightarrow>
          let mobi = strncmp_eq ''BOOKMOBI'' hdr pdb_type_at;
              palm = strncmp_eq ''TEXtREAd'' hdr pdb_type_at
          in
          if \<not> mobi \<and> \<not> palm then Fail
          else
            let n = unat (ReadBeU16 hdr pdb_numRecords_at) in
            if n < 1 then Fail
            else
              (case fread_at f kPdbHeaderLen (kPdbRecordHeaderLen * n) of
                 None \<Rightarrow> Fail
               | Some rh \<Rightarrow>
                   let offs = map (\<lambda>i. ReadBeU32 rh (kPdbRecordHeaderLen * i)) [0..<n]
                                @ [of_nat (length (content f))]
                   in
                   if list_ex (\<lambda>i. offs ! (i + 1) < offs ! i) [0..<n] then Fail
                   else Ok (MobiBook_new\<lparr>isMobi := mobi, numRecords := n, recHeaders := offs\<rparr>)))"

text \<open>
  \<^verbatim>\<open>while (flags > 1) { if (0 != (flags & 2)) trailersCount++; flags = flags >> 1; }\<close>: what
  the loop adds to \<^verbatim>\<open>trailersCount\<close>.
\<close>

function count_trailers :: "uint16 \<Rightarrow> nat" where
  "count_trailers flags =
     (if 1 < flags then (if flags AND 2 \<noteq> 0 then 1 else 0) + count_trailers (drop_bit 1 flags)
      else 0)"
  by pat_completeness auto
termination
proof (relation "measure unat", goal_cases)
  case 1
  show ?case by simp
next
  case (2 flags)
  then have "1 < unat flags" by (simp add: word_less_nat_alt)
  moreover have "unat (drop_bit 1 flags) = unat flags div 2"
    unfolding unat_drop_bit_eq by (simp add: drop_bit_eq_div)
  ultimately show ?case by simp
qed

declare count_trailers.simps [simp del]

text \<open>
  A C string at \<open>p\<close> in the buffer, as \<^verbatim>\<open>std::string::append(const char*)\<close> and the assignment
  from a \<^verbatim>\<open>char*\<close> read it: the bytes up to the first NUL. With no NUL left in the buffer
  the read runs past its end.
\<close>

definition c_str :: "uint8 list \<Rightarrow> nat \<Rightarrow> uint8 list outcome" where
  "c_str buf p =
     (if 0 \<in> set (drop p buf) then Ok (takeWhile (\<lambda>c. c \<noteq> 0) (drop p buf)) else Undefined)"

text \<open>
  One pass through the loop over the EXTH records, with the record at \<open>pos\<close>: the buffer
  after the two swaps, the position after \<^verbatim>\<open>currRecPos += rec->len\<close>, and the book. The
  payload starts at \<^verbatim>\<open>&rec->data\<close>, 8 bytes into the record. Type 201 loads the member
  \<^verbatim>\<open>void *data\<close>, the 8 bytes there, keeps the low four as a \<^verbatim>\<open>uint32\<close>, the four that the
  file has first, and swaps the copy.
\<close>

definition exth_record :: "uint8 list \<Rightarrow> nat \<Rightarrow> MobiBook \<Rightarrow> (uint8 list \<times> nat \<times> MobiBook) outcome" where
  "exth_record buf pos b =
     (if length buf < pos + 8 then Undefined
      else
        let buf' = SwapU32 (SwapU32 buf (pos + 4)) pos;
            rlen = unat (field32 buf' (pos + 4));
            rtype = unat (field32 buf' pos)
        in
        if rtype = 100 then
          (case c_str buf' (pos + 8) of
             Ok s \<Rightarrow> Ok (buf', pos + rlen, b\<lparr>author := author b @ s\<rparr>)
           | Fail \<Rightarrow> Fail
           | Undefined \<Rightarrow> Undefined)
        else if rtype = 101 then
          (case c_str buf' (pos + 8) of
             Ok s \<Rightarrow> Ok (buf', pos + rlen, b\<lparr>publisher := publisher b @ s\<rparr>)
           | Fail \<Rightarrow> Fail
           | Undefined \<Rightarrow> Undefined)
        else if rtype = 201 then
          (if length buf' < pos + 16 then Undefined
           else Ok (buf', pos + rlen, b\<lparr>coverImage := sint (ReadBeU32 buf' (pos + 8))\<rparr>))
        else if rtype = 503 then
          (case c_str buf' (pos + 8) of
             Ok s \<Rightarrow> Ok (buf', pos + rlen, b\<lparr>title := s\<rparr>)
           | Fail \<Rightarrow> Fail
           | Undefined \<Rightarrow> Undefined)
        else Ok (buf', pos + rlen, b))"

text \<open>\<^verbatim>\<open>for (int i = 0; i < eh->recCount; ++i)\<close>, with \<open>n\<close> records still to come.\<close>

fun exth_loop :: "nat \<Rightarrow> uint8 list \<Rightarrow> nat \<Rightarrow> MobiBook \<Rightarrow> (uint8 list \<times> MobiBook) outcome" where
  "exth_loop n buf pos b =
     (if n = 0 then Ok (buf, b)
      else
        (case exth_record buf pos b of
           Ok (buf', pos', b') \<Rightarrow> exth_loop (n - 1) buf' pos' b'
         | Fail \<Rightarrow> Fail
         | Undefined \<Rightarrow> Undefined))"

declare exth_loop.simps [simp del]

text \<open>
  \<^verbatim>\<open>if (mobiHdr->exhtFlags & 0x40) { ... }\<close>, with the EXTH header at \<open>pos\<close>, just after the
  MOBI header.
\<close>

definition parse_exth :: "uint8 list \<Rightarrow> nat \<Rightarrow> MobiBook \<Rightarrow> (uint8 list \<times> MobiBook) outcome" where
  "parse_exth buf pos b =
     (if field32 buf (kPalmDocHeaderLen + 112) AND 0x40 = 0 then Ok (buf, b)
      else
        (case magic_eq (drop pos buf) (bytes_of ''EXTH'') of
           Ok True \<Rightarrow>
             if length buf < pos + 12 then Undefined
             else
               let buf' = SwapU32 (SwapU32 buf (pos + 4)) (pos + 8) in
               exth_loop (unat (field32 buf' (pos + 8))) buf' (pos + 12) b
         | Ok False \<Rightarrow> Fail
         | Fail \<Rightarrow> Fail
         | Undefined \<Rightarrow> Undefined))"

text \<open>The loop over the CDIC records, from the \<open>i\<close>-th of \<open>cdicsCount\<close>.\<close>

function add_cdics ::
    "input_file \<Rightarrow> MobiBook \<Rightarrow> nat \<Rightarrow> nat \<Rightarrow> nat \<Rightarrow> HuffDicDecompressor \<Rightarrow> HuffDicDecompressor outcome" where
  "add_cdics f b huffmanFirstRec cdicsCount i h =
     (if i < cdicsCount then
        (case readRecord f b (huffmanFirstRec + 1 + i) of
           Ok None \<Rightarrow> Fail
         | Ok (Some recData) \<Rightarrow>
             (case AddCdicData h recData of
                Ok h' \<Rightarrow> add_cdics f b huffmanFirstRec cdicsCount (i + 1) h'
              | Fail \<Rightarrow> Fail
              | Undefined \<Rightarrow> Undefined)
         | Fail \<Rightarrow> Fail
         | Undefined \<Rightarrow> Undefined)
      else Ok h)"
  by pat_completeness auto
termination
  by (relation "measure (\<lambda>(f, b, huffmanFirstRec, cdicsCount, i, h). cdicsCount - i)") auto

declare add_cdics.simps [simp del]

text \<open>
  \<^verbatim>\<open>if (palmDocHdr->compressionType == COMPRESSION_HUFF) { ... }\<close>. The two fields of the MOBI
  header are read from the buffer as the EXTH loop has left it.
\<close>

definition setup_huff :: "input_file \<Rightarrow> uint8 list \<Rightarrow> MobiBook \<Rightarrow> MobiBook outcome" where
  "setup_huff f buf b =
     (if compressionType b = COMPRESSION_HUFF then
        let huffmanFirstRec = unat (field32 buf (kPalmDocHeaderLen + 96));
            huffmanRecCount = field32 buf (kPalmDocHeaderLen + 100)
        in
        (case readRecord f b huffmanFirstRec of
           Ok None \<Rightarrow> Fail
         | Ok (Some recData) \<Rightarrow>
             let cdicsCount = unat (huffmanRecCount - 1) in
             if kCdicsMax < cdicsCount then Fail
             else
               (case SetHuffData HuffDicDecompressor_new recData of
                  Ok h \<Rightarrow>
                    (case add_cdics f b huffmanFirstRec cdicsCount 0 h of
                       Ok h' \<Rightarrow> Ok (b\<lparr>huffDic := Some h'\<rparr>)
                     | Fail \<Rightarrow> Fail
                     | Undefined \<Rightarrow> Undefined)
                | Fail \<Rightarrow> Fail
                | Undefined \<Rightarrow> Undefined)
         | Fail \<Rightarrow> Fail
         | Undefined \<Rightarrow> Undefined)
      else Ok b)"

text \<open>
  The MOBI header, from \<^verbatim>\<open>MobiHeader *mobiHdr = (MobiHeader*)currRecPos\<close> to the end of the
  HUFF/CDIC set-up, the last place where \<^verbatim>\<open>parseHeader\<close> returns \<^verbatim>\<open>false\<close>. The fields lie at
  their offsets in \<^verbatim>\<open>struct MobiHeader\<close>, 16 bytes into the record. The code swaps seventeen
  of them after it has checked only that 8 bytes are left: a record that ends before the
  last of them (\<^verbatim>\<open>lastContentRecord\<close>, at 178) is read and written past its end.
\<close>

definition mobi_swapped32 :: "nat list" where
  "mobi_swapped32 = [4, 8, 12, 20, 64, 68, 72, 76, 88, 92, 96, 100, 104, 108, 112]"

definition parse_mobi_front :: "input_file \<Rightarrow> MobiBook \<Rightarrow> uint8 list \<Rightarrow> MobiBook outcome" where
  "parse_mobi_front f b buf =
     (if \<not> strncmp_eq ''MOBI'' buf kPalmDocHeaderLen then Fail
      else if length buf < kPalmDocHeaderLen + 180 then Undefined
      else
        let buf2 = SwapU16 (SwapU16
                     (foldl (\<lambda>m off. SwapU32 m (kPalmDocHeaderLen + off)) buf mobi_swapped32)
                     (kPalmDocHeaderLen + 176)) (kPalmDocHeaderLen + 178);
            hdrLen = unat (field32 buf2 (kPalmDocHeaderLen + 4));
            fullNameOffset = unat (field32 buf2 (kPalmDocHeaderLen + 68));
            fullNameLen = unat (field32 buf2 (kPalmDocHeaderLen + 72));
            imageFirst = field32 buf2 (kPalmDocHeaderLen + 92);
            lastContentRecord = field16 buf2 (kPalmDocHeaderLen + 178)
        in
        if length buf2 < fullNameOffset + fullNameLen then Undefined
        else
          let b1 = b\<lparr>locale' := Some (field32 buf2 (kPalmDocHeaderLen + 76)),
                     title := title b @ take fullNameLen (drop fullNameOffset buf2),
                     textEncoding := field32 buf2 (kPalmDocHeaderLen + 12)\<rparr>;
              b2 = (if imageFirst < of_nat (numRecords b1) then
                      b1\<lparr>imageFirstRec := unat imageFirst,
                         imagesCount := (if imageFirst = 0 then 0
                                         else unat (ucast lastContentRecord - imageFirst + 1))\<rparr>
                    else b1)
          in
          if length buf2 - kPalmDocHeaderLen < hdrLen then Fail
          else
            let pos = kPalmDocHeaderLen + hdrLen;
                buf3 = (if 228 \<le> hdrLen then SwapU16 buf2 (kPalmDocHeaderLen + 226) else buf2);
                flags = field16 buf3 (kPalmDocHeaderLen + 226);
                b3 = (if 228 \<le> hdrLen then
                        b2\<lparr>multibyte := (flags AND 1 \<noteq> 0),
                           trailersCount := trailersCount b2 + count_trailers flags\<rparr>
                      else b2)
            in
            (case parse_exth buf3 pos b3 of
               Ok (buf4, b4) \<Rightarrow> setup_huff f buf4 (b4\<lparr>firstRecData := buf4\<rparr>)
             | Fail \<Rightarrow> Fail
             | Undefined \<Rightarrow> Undefined))"

text \<open>The end of \<^verbatim>\<open>parseHeader\<close>: \<^verbatim>\<open>loadImages(); return true;\<close>.\<close>

definition parse_mobi :: "input_file \<Rightarrow> MobiBook \<Rightarrow> uint8 list \<Rightarrow> MobiBook outcome" where
  "parse_mobi f b buf =
     (case parse_mobi_front f b buf of
        Ok b5 \<Rightarrow> loadImages f b5
      | Fail \<Rightarrow> Fail
      | Undefined \<Rightarrow> Undefined)"

text \<open>
  \<^verbatim>\<open>parseHeader\<close>: \<open>Ok\<close> is \<^verbatim>\<open>return true\<close> with the book as it then is, \<open>Fail\<close> is
  \<^verbatim>\<open>return false\<close>. Record 0 is copied into \<^verbatim>\<open>firstRecData\<close>; the PalmDOC header is read from
  its first 16 bytes whatever its length. \<^verbatim>\<open>encrType\<close> is compared with 0 unswapped.
\<close>

definition parseHeader :: "input_file \<Rightarrow> MobiBook outcome" where
  "parseHeader f =
     (case parse_pdb f of
        Ok b \<Rightarrow>
          (case readRecord f b 0 of
             Ok None \<Rightarrow> Fail
           | Ok (Some rec0) \<Rightarrow>
               if length rec0 < kPalmDocHeaderLen then Undefined
               else
                 let buf = SwapU16 (SwapU16 (SwapU32 (SwapU16 rec0 0) 4) 8) 10;
                     compr = unat (field16 buf 0)
                 in
                 if \<not> IsValidCompression compr then Fail
                 else if isMobi b \<and> field16 buf 12 \<noteq> 0 then Fail
                 else
                   let b1 = b\<lparr>firstRecData := buf,
                              docRecCount := unat (field16 buf 8),
                              docUncompressedSize := unat (field32 buf 4),
                              compressionType := compr\<rparr>;
                       recLeft = length rec0 - kPalmDocHeaderLen
                   in
                   if recLeft = 0 then Ok b1
                   else if recLeft < 8 then Fail
                   else parse_mobi f b1 buf
           | Fail \<Rightarrow> Fail
           | Undefined \<Rightarrow> Undefined)
      | Fail \<Rightarrow> Fail
      | Undefined \<Rightarrow> Undefined)"

subsection \<open>loadDocument\<close>

text \<open>
  \<^verbatim>\<open>loadDocRecordIntoBuffer\<close>, in two parts: \<open>record_text\<close> is what the function appends
  to \<^verbatim>\<open>strOut\<close> for the record \<open>recNo\<close> (every branch that returns \<^verbatim>\<open>true\<close> ends in one
  \<^verbatim>\<open>strOut.append\<close>), and the function appends it to \<^verbatim>\<open>doc\<close>. \<open>buf\<close> is the local
  \<^verbatim>\<open>char buf[6000]\<close> as the stack holds it on entry, not initialised, and \<open>stack\<close> the room
  for nested calls of the HUFF/CDIC decompressor. \<^verbatim>\<open>recSize -= extraSize\<close> is unsigned: with
  more extra bytes than the record has, the decoders are handed a length far past the record.
\<close>

definition record_text ::
    "nat \<Rightarrow> uint8 list \<Rightarrow> input_file \<Rightarrow> MobiBook \<Rightarrow> nat \<Rightarrow> uint8 list outcome" where
  "record_text stack buf f b recNo =
     (case readRecord f b recNo of
        Ok None \<Rightarrow> Fail
      | Ok (Some recData) \<Rightarrow>
          (case ExtraDataSize recData (trailersCount b) (multibyte b) of
             Ok extraSize \<Rightarrow>
               if length recData < unat extraSize then Undefined
               else
                 let src = take (length recData - unat extraSize) recData in
                 if COMPRESSION_NONE = compressionType b then Ok src
                 else if COMPRESSION_PALM = compressionType b then
                   (case PalmdocUncompress src buf of
                      Ok (uncompressedSize, out) \<Rightarrow> Ok (take uncompressedSize out)
                    | Fail \<Rightarrow> Fail
                    | Undefined \<Rightarrow> Undefined)
                 else if COMPRESSION_HUFF = compressionType b then
                   (case huffDic b of
                      None \<Rightarrow> Fail
                    | Some h \<Rightarrow>
                        (case Decompress stack h src buf of
                           Ok (uncompressedSize, out) \<Rightarrow> Ok (take uncompressedSize out)
                         | Fail \<Rightarrow> Fail
                         | Undefined \<Rightarrow> Undefined))
                 else Fail
           | Fail \<Rightarrow> Fail
           | Undefined \<Rightarrow> Undefined)
      | Fail \<Rightarrow> Fail
      | Undefined \<Rightarrow> Undefined)"

definition loadDocRecordIntoBuffer ::
    "nat \<Rightarrow> uint8 list \<Rightarrow> input_file \<Rightarrow> MobiBook \<Rightarrow> nat \<Rightarrow> MobiBook outcome" where
  "loadDocRecordIntoBuffer stack buf f b recNo =
     (case record_text stack buf f b recNo of
        Ok bytes \<Rightarrow> Ok (b\<lparr>doc := doc b @ bytes\<rparr>)
      | Fail \<Rightarrow> Fail
      | Undefined \<Rightarrow> Undefined)"

text \<open>
  \<^verbatim>\<open>for (size_t i = 1; i <= docRecCount; i++)\<close>, from \<open>i\<close> on. The two assertions of
  \<^verbatim>\<open>loadDocument\<close>, \<^verbatim>\<open>docUncompressedSize > 0\<close> before the loop and
  \<^verbatim>\<open>docUncompressedSize == doc.length()\<close> after it, have no \<^verbatim>\<open>if\<close> behind them.
\<close>

function loadDocument_loop ::
    "nat \<Rightarrow> uint8 list \<Rightarrow> input_file \<Rightarrow> nat \<Rightarrow> MobiBook \<Rightarrow> nat \<Rightarrow> MobiBook outcome" where
  "loadDocument_loop stack buf f n b i =
     (if i \<le> n then
        (case loadDocRecordIntoBuffer stack buf f b i of
           Ok b' \<Rightarrow> loadDocument_loop stack buf f n b' (i + 1)
         | Fail \<Rightarrow> Fail
         | Undefined \<Rightarrow> Undefined)
      else Ok b)"
  by pat_completeness auto
termination
  by (relation "measure (\<lambda>(stack, buf, f, n, b, i). n + 1 - i)") auto

declare loadDocument_loop.simps [simp del]

definition loadDocument :: "nat \<Rightarrow> uint8 list \<Rightarrow> input_file \<Rightarrow> MobiBook \<Rightarrow> MobiBook outcome" where
  "loadDocument stack buf f b = loadDocument_loop stack buf f (docRecCount b) b 1"

text \<open>
  \<^verbatim>\<open>createFromFile\<close>, the \<^verbatim>\<open>open()\<close> of the spec, on a file that \<^verbatim>\<open>fopen\<close> has opened: \<open>Ok\<close> is
  the book returned, \<open>Fail\<close> the null pointer.
\<close>

definition createFromFile :: "nat \<Rightarrow> uint8 list \<Rightarrow> input_file \<Rightarrow> MobiBook outcome" where
  "createFromFile stack buf f =
     (case parseHeader f of
        Ok b \<Rightarrow> loadDocument stack buf f b
      | Fail \<Rightarrow> Fail
      | Undefined \<Rightarrow> Undefined)"

section \<open>Example inputs\<close>

text \<open>
  The image records of the files below have four bytes or more, so that \<^verbatim>\<open>ImageType\<close> does
  not read behind them: the files give no bytes there.
\<close>

text \<open>
  A five-byte GIF record as \<^verbatim>\<open>loadImage\<close> stores it, a file that holds it, and a book whose
  record 1 it is.
\<close>

definition gif5 :: ImageData where
  "gif5 = \<lparr>data = Some [0x47, 0x49, 0x46, 0x38, 0x39], len = 5, imgtype = Some ''.gif''\<rparr>"

definition gif_file :: input_file where
  "gif_file = \<lparr>content = [0x47, 0x49, 0x46, 0x38, 0x39], io_error = [], stale = (\<lambda>recNo. [])\<rparr>"

definition gif_book :: MobiBook where
  "gif_book = MobiBook_new\<lparr>numRecords := 2, recHeaders := [0, 0, 5], imageFirstRec := 1,
     imagesCount := 1, images := [empty_slot]\<rparr>"


text \<open>
  \<open>hello_file\<close>: a PalmDOC container (\<^verbatim>\<open>TEXtREAd\<close>) of two records. Record 0 is the 16-byte
  PalmDOC header: compression 1, \<^verbatim>\<open>uncompressedDocSize\<close> 100, one text record. Record 1 is
  the 14 bytes \<^verbatim>\<open>Hello, world!\<close> and a line feed.
\<close>

definition hello_file :: input_file where
  "hello_file = \<lparr>content =
     [0x00, 0x00, 0x00, 0x00, 0x00, 0x00, 0x00, 0x00, 0x00, 0x00, 0x00, 0x00, 0x00, 0x00, 0x00, 0x00,
      0x00, 0x00, 0x00, 0x00, 0x00, 0x00, 0x00, 0x00, 0x00, 0x00, 0x00, 0x00, 0x00, 0x00, 0x00, 0x00,
      0x00, 0x00, 0x00, 0x00, 0x00, 0x00, 0x00, 0x00, 0x00, 0x00, 0x00, 0x00, 0x00, 0x00, 0x00, 0x00,
      0x00, 0x00, 0x00, 0x00, 0x00, 0x00, 0x00, 0x00, 0x00, 0x00, 0x00, 0x00, 0x54, 0x45, 0x58, 0x74,
      0x52, 0x45, 0x41, 0x64, 0x00, 0x00, 0x00, 0x00, 0x00, 0x00, 0x00, 0x00, 0x00, 0x02, 0x00, 0x00,
      0x00, 0x5E, 0x00, 0x00, 0x00, 0x00, 0x00, 0x00, 0x00, 0x6E, 0x00, 0x00, 0x00, 0x00, 0x00, 0x01,
      0x00, 0x00, 0x00, 0x00, 0x00, 0x64, 0x00, 0x01, 0x10, 0x00, 0x00, 0x00, 0x00, 0x00, 0x48, 0x65,
      0x6C, 0x6C, 0x6F, 0x2C, 0x20, 0x77, 0x6F, 0x72, 0x6C, 0x64, 0x21, 0x0A],
     io_error = [], stale = (\<lambda>recNo. [])\<rparr>"

text \<open>
  \<open>author_file\<close>: a MOBI container (\<^verbatim>\<open>BOOKMOBI\<close>) of two records. Record 0 holds the PalmDOC
  header, a MOBI header of 232 bytes with the EXTH flag, an EXTH table of two records of
  type 100 with the payloads \<^verbatim>\<open>A\<close>, NUL, \<^verbatim>\<open>B\<close> (three bytes) and \<^verbatim>\<open>Jane\<close>, and right after
  it the full name \<^verbatim>\<open>Title\<close> and two NUL bytes. Record 1 is the text \<^verbatim>\<open>Hi\<close>.
\<close>

definition author_file :: input_file where
  "author_file = \<lparr>content =
     [0x00, 0x00, 0x00, 0x00, 0x00, 0x00, 0x00, 0x00, 0x00, 0x00, 0x00, 0x00, 0x00, 0x00, 0x00, 0x00,
      0x00, 0x00, 0x00, 0x00, 0x00, 0x00, 0x00, 0x00, 0x00, 0x00, 0x00, 0x00, 0x00, 0x00, 0x00, 0x00,
      0x00, 0x00, 0x00, 0x00, 0x00, 0x00, 0x00, 0x00, 0x00, 0x00, 0x00, 0x00, 0x00, 0x00, 0x00, 0x00,
      0x00, 0x00, 0x00, 0x00, 0x00, 0x00, 0x00, 0x00, 0x00, 0x00, 0x00, 0x00, 0x42, 0x4F, 0x4F, 0x4B,
      0x4D, 0x4F, 0x42, 0x49, 0x00, 0x00, 0x00, 0x00, 0x00, 0x00, 0x00, 0x00, 0x00, 0x02, 0x00, 0x00,
      0x00, 0x5E, 0x00, 0x00, 0x00, 0x00, 0x00, 0x00, 0x01, 0x80, 0x00, 0x00, 0x00, 0x00, 0x00, 0x01,
      0x00, 0x00, 0x00, 0x00, 0x00, 0x02, 0x00, 0x01, 0x10, 0x00, 0x00, 0x00, 0x00, 0x00, 0x4D, 0x4F,
      0x42, 0x49, 0x00, 0x00, 0x00, 0xE8, 0x00, 0x00, 0x00, 0x02, 0x00, 0x00, 0xFD, 0xE9, 0x00, 0x00,
      0x00, 0x00, 0x00, 0x00, 0x00, 0x06, 0x00, 0x00, 0x00, 0x00, 0x00, 0x00, 0x00, 0x00, 0x00, 0x00,
      0x00, 0x00, 0x00, 0x00, 0x00, 0x00, 0x00, 0x00, 0x00, 0x00, 0x00, 0x00, 0x00, 0x00, 0x00, 0x00,
      0x00, 0x00, 0x00, 0x00, 0x00, 0x00, 0x00, 0x00, 0x00, 0x00, 0x00, 0x00, 0x00, 0x00, 0x00, 0x00,
      0x00, 0x00, 0x00, 0x00, 0x01, 0x1B, 0x00, 0x00, 0x00, 0x05, 0x00, 0x00, 0x04, 0x09, 0x00, 0x00,
      0x00, 0x00, 0x00, 0x00, 0x00, 0x00, 0x00, 0x00, 0x00, 0x00, 0x00, 0x00, 0x00, 0x02, 0x00, 0x00,
      0x00, 0x00, 0x00, 0x00, 0x00, 0x00, 0x00, 0x00, 0x00, 0x00, 0x00, 0x00, 0x00, 0x00, 0x00, 0x00,
      0x00, 0x40, 0x00, 0x00, 0x00, 0x00, 0x00, 0x00, 0x00, 0x00, 0x00, 0x00, 0x00, 0x00, 0x00, 0x00,
      0x00, 0x00, 0x00, 0x00, 0x00, 0x00, 0x00, 0x00, 0x00, 0x00, 0x00, 0x00, 0x00, 0x00, 0x00, 0x00,
      0x00, 0x00, 0x00, 0x00, 0x00, 0x00, 0x00, 0x00, 0x00, 0x00, 0x00, 0x00, 0x00, 0x00, 0x00, 0x00,
      0x00, 0x00, 0x00, 0x00, 0x00, 0x00, 0x00, 0x00, 0x00, 0x00, 0x00, 0x00, 0x00, 0x00, 0x00, 0x01,
      0x00, 0x01, 0x00, 0x00, 0x00, 0x00, 0x00, 0x00, 0x00, 0x00, 0x00, 0x00, 0x00, 0x00, 0x00, 0x00,
      0x00, 0x00, 0x00, 0x00, 0x00, 0x00, 0x00, 0x00, 0x00, 0x00, 0x00, 0x00, 0x00, 0x00, 0x00, 0x00,
      0x00, 0x00, 0x00, 0x00, 0x00, 0x00, 0x00, 0x00, 0x00, 0x00, 0x00, 0x00, 0x00, 0x00, 0x00, 0x00,
      0x00, 0x00, 0x00, 0x00, 0x00, 0x00, 0x45, 0x58, 0x54, 0x48, 0x00, 0x00, 0x00, 0x23, 0x00, 0x00,
      0x00, 0x02, 0x00, 0x00, 0x00, 0x64, 0x00, 0x00, 0x00, 0x0B, 0x41, 0x00, 0x42, 0x00, 0x00, 0x00,
      0x64, 0x00, 0x00, 0x00, 0x0C, 0x4A, 0x61, 0x6E, 0x65, 0x54, 0x69, 0x74, 0x6C, 0x65, 0x00, 0x00,
      0x48, 0x69],
     io_error = [], stale = (\<lambda>recNo. [])\<rparr>"

text \<open>
  \<open>cover_file\<close>: a MOBI container of five records. Record 0 has an EXTH table with one
  record of type 201 and the payload \<open>00 00 00 01\<close>, and \<^verbatim>\<open>imageFirstRec = 2\<close>,
  \<^verbatim>\<open>lastContentRecord = 4\<close>. Record 1 is the text \<^verbatim>\<open>Hi\<close>, record 2 a GIF of six bytes at
  offset 400, record 3 is empty, record 4 a PNG of eight bytes.
\<close>

definition cover_file :: input_file where
  "cover_file = \<lparr>content =
     [0x00, 0x00, 0x00, 0x00, 0x00, 0x00, 0x00, 0x00, 0x00, 0x00, 0x00, 0x00, 0x00, 0x00, 0x00, 0x00,
      0x00, 0x00, 0x00, 0x00, 0x00, 0x00, 0x00, 0x00, 0x00, 0x00, 0x00, 0x00, 0x00, 0x00, 0x00, 0x00,
      0x00, 0x00, 0x00, 0x00, 0x00, 0x00, 0x00, 0x00, 0x00, 0x00, 0x00, 0x00, 0x00, 0x00, 0x00, 0x00,
      0x00, 0x00, 0x00, 0x00, 0x00, 0x00, 0x00, 0x00, 0x00, 0x00, 0x00, 0x00, 0x42, 0x4F, 0x4F, 0x4B,
      0x4D, 0x4F, 0x42, 0x49, 0x00, 0x00, 0x00, 0x00, 0x00, 0x00, 0x00, 0x00, 0x00, 0x05, 0x00, 0x00,
      0x00, 0x76, 0x00, 0x00, 0x00, 0x00, 0x00, 0x00, 0x01, 0x8E, 0x00, 0x00, 0x00, 0x00, 0x00, 0x00,
      0x01, 0x90, 0x00, 0x00, 0x00, 0x00, 0x00, 0x00, 0x01, 0x96, 0x00, 0x00, 0x00, 0x00, 0x00, 0x00,
      0x01, 0x96, 0x00, 0x00, 0x00, 0x00, 0x00, 0x01, 0x00, 0x00, 0x00, 0x00, 0x00, 0x02, 0x00, 0x01,
      0x10, 0x00, 0x00, 0x00, 0x00, 0x00, 0x4D, 0x4F, 0x42, 0x49, 0x00, 0x00, 0x00, 0xE8, 0x00, 0x00,
      0x00, 0x02, 0x00, 0x00, 0xFD, 0xE9, 0x00, 0x00, 0x00, 0x00, 0x00, 0x00, 0x00, 0x06, 0x00, 0x00,
      0x00, 0x00, 0x00, 0x00, 0x00, 0x00, 0x00, 0x00, 0x00, 0x00, 0x00, 0x00, 0x00, 0x00, 0x00, 0x00,
      0x00, 0x00, 0x00, 0x00, 0x00, 0x00, 0x00, 0x00, 0x00, 0x00, 0x00, 0x00, 0x00, 0x00, 0x00, 0x00,
      0x00, 0x00, 0x00, 0x00, 0x00, 0x00, 0x00, 0x00, 0x00, 0x00, 0x00, 0x00, 0x01, 0x10, 0x00, 0x00,
      0x00, 0x05, 0x00, 0x00, 0x04, 0x09, 0x00, 0x00, 0x00, 0x00, 0x00, 0x00, 0x00, 0x00, 0x00, 0x00,
      0x00, 0x00, 0x00, 0x00, 0x00, 0x02, 0x00, 0x00, 0x00, 0x00, 0x00, 0x00, 0x00, 0x00, 0x00, 0x00,
      0x00, 0x00, 0x00, 0x00, 0x00, 0x00, 0x00, 0x00, 0x00, 0x40, 0x00, 0x00, 0x00, 0x00, 0x00, 0x00,
      0x00, 0x00, 0x00, 0x00, 0x00, 0x00, 0x00, 0x00, 0x00, 0x00, 0x00, 0x00, 0x00, 0x00, 0x00, 0x00,
      0x00, 0x00, 0x00, 0x00, 0x00, 0x00, 0x00, 0x00, 0x00, 0x00, 0x00, 0x00, 0x00, 0x00, 0x00, 0x00,
      0x00, 0x00, 0x00, 0x00, 0x00, 0x00, 0x00, 0x00, 0x00, 0x00, 0x00, 0x00, 0x00, 0x00, 0x00, 0x00,
      0x00, 0x00, 0x00, 0x00, 0x00, 0x00, 0x00, 0x01, 0x00, 0x04, 0x00, 0x00, 0x00, 0x00, 0x00, 0x00,
      0x00, 0x00, 0x00, 0x00, 0x00, 0x00, 0x00, 0x00, 0x00, 0x00, 0x00, 0x00, 0x00, 0x00, 0x00, 0x00,
      0x00, 0x00, 0x00, 0x00, 0x00, 0x00, 0x00, 0x00, 0x00, 0x00, 0x00, 0x00, 0x00, 0x00, 0x00, 0x00,
      0x00, 0x00, 0x00, 0x00, 0x00, 0x00, 0x00, 0x00, 0x00, 0x00, 0x00, 0x00, 0x00, 0x00, 0x45, 0x58,
      0x54, 0x48, 0x00, 0x00, 0x00, 0x18, 0x00, 0x00, 0x00, 0x01, 0x00, 0x00, 0x00, 0xC9, 0x00, 0x00,
      0x00, 0x0C, 0x00, 0x00, 0x00, 0x01, 0x54, 0x69, 0x74, 0x6C, 0x65, 0x00, 0x00, 0x00, 0x48, 0x69,
      0x47, 0x49, 0x46, 0x38, 0x39, 0x61, 0x89, 0x50, 0x4E, 0x47, 0x0D, 0x0A, 0x1A, 0x0A],
     io_error = [], stale = (\<lambda>recNo. [])\<rparr>"

text \<open>
  \<open>no_index_file\<close>: \<open>cover_file\<close> without the EXTH flag. Byte 249 of the file is the low
  byte of \<^verbatim>\<open>exhtFlags\<close>, \<open>0x40\<close> in \<open>cover_file\<close>: with 0 there the EXTH table is not read and
  no cover index is supplied. The image records are the same: a GIF of six bytes, an empty
  record, a PNG of eight bytes.
\<close>

definition no_index_file :: input_file where
  "no_index_file = cover_file\<lparr>content := (content cover_file)[249 := 0x00]\<rparr>"

definition png8 :: ImageData where
  "png8 = \<lparr>data = Some [0x89, 0x50, 0x4E, 0x47, 0x0D, 0x0A, 0x1A, 0x0A], len = 8, imgtype = Some ''.png''\<rparr>"

text \<open>
  A file of a five-byte GIF and an eight-byte PNG, and a book whose records 1 and 3 they are,
  with an empty record 2 between them; the three are its image records.
\<close>

definition two_images_file :: input_file where
  "two_images_file = \<lparr>content = [0x47, 0x49, 0x46, 0x38, 0x39,
      0x89, 0x50, 0x4E, 0x47, 0x0D, 0x0A, 0x1A, 0x0A], io_error = [], stale = (\<lambda>recNo. [])\<rparr>"

definition two_images_book :: MobiBook where
  "two_images_book = MobiBook_new\<lparr>numRecords := 4, recHeaders := [0, 0, 5, 5, 13],
     imageFirstRec := 1, imagesCount := 3, images := [empty_slot, empty_slot, empty_slot]\<rparr>"

section \<open>Properties of PalmDOC decompression\<close>

lemma length_copy_literal [simp]: "length (copy_literal src s dst d c) = length dst"
  by (induction c arbitrary: s dst d) (simp_all add: copy_literal.simps)

lemma copy_literal_eq:
  "s + c \<le> length src \<Longrightarrow> d + c \<le> length dst \<Longrightarrow>
   copy_literal src s dst d c = take d dst @ take c (drop s src) @ drop (d + c) dst"
proof (induction c arbitrary: s dst d)
  case 0
  then show ?case by (simp add: copy_literal.simps)
next
  case (Suc c)
  have "copy_literal src s dst d (Suc c) = copy_literal src (s + 1) (dst[d := src ! s]) (d + 1) c"
    by (subst copy_literal.simps) simp
  also have "\<dots> = take (d + 1) (dst[d := src ! s]) @ take c (drop (s + 1) src) @ drop (d + 1 + c) (dst[d := src ! s])"
    using Suc.prems by (intro Suc.IH) simp_all
  also have "take (d + 1) (dst[d := src ! s]) = take d dst @ [src ! s]"
    using Suc.prems by (simp add: take_Suc_conv_app_nth)
  also have "drop (d + 1 + c) (dst[d := src ! s]) = drop (d + Suc c) dst"
    by simp
  also have "(take d dst @ [src ! s]) @ take c (drop (s + 1) src) @ drop (d + Suc c) dst
      = take d dst @ take (Suc c) (drop s src) @ drop (d + Suc c) dst"
    using Suc.prems by (simp add: take_Suc_conv_app_nth Cons_nth_drop_Suc take_Suc_Cons[symmetric] del: take_Suc_Cons)
  finally show ?case .
qed

lemma length_copy_back [simp]: "length (copy_back dst d back n) = length dst"
  by (induction n arbitrary: dst d) (simp_all add: copy_back.simps)

lemma copy_back_before: "i < d \<Longrightarrow> copy_back dst d back n ! i = dst ! i"
  by (induction n arbitrary: dst d) (simp_all add: copy_back.simps)

lemma copy_back_after: "d + n \<le> i \<Longrightarrow> copy_back dst d back n ! i = dst ! i"
  by (induction n arbitrary: dst d) (simp_all add: copy_back.simps)

lemma copy_back_zero: "copy_back dst d 0 n = dst"
  by (induction n arbitrary: dst d) (simp_all add: copy_back.simps)

lemma copy_back_nth:
  "1 \<le> back \<Longrightarrow> back \<le> d \<Longrightarrow> d + n \<le> length dst \<Longrightarrow> k < n \<Longrightarrow>
   copy_back dst d back n ! (d + k) = copy_back dst d back n ! (d + k - back)"
proof (induction n arbitrary: dst d k)
  case 0
  then show ?case by simp
next
  case (Suc n)
  let ?dst = "dst[d := dst ! (d - back)]"
  have unf: "copy_back dst d back (Suc n) = copy_back ?dst (d + 1) back n"
    by (subst copy_back.simps) simp
  show ?case
  proof (cases k)
    case 0
    have "copy_back ?dst (d + 1) back n ! d = ?dst ! d"
      by (rule copy_back_before) simp
    moreover have "copy_back ?dst (d + 1) back n ! (d - back) = ?dst ! (d - back)"
      using Suc.prems by (intro copy_back_before) simp
    ultimately show ?thesis
      using Suc.prems 0 by (simp add: unf)
  next
    case (Suc k')
    have "copy_back ?dst (d + 1) back n ! (d + 1 + k') = copy_back ?dst (d + 1) back n ! (d + 1 + k' - back)"
      using Suc.prems Suc by (intro Suc.IH) simp_all
    then show ?thesis
      using Suc by (simp add: unf)
  qed
qed

lemma unat_ucast_16_32: "unat (ucast (x :: uint16) :: uint32) = unat x"
proof -
  have "uint (ucast x :: uint32) = uint x"
    by (rule uint_up_ucast) (simp add: is_up)
  then show ?thesis
    by (simp only: unat_eq_nat_uint)
qed

lemma w32_of_w16:
  fixes a b :: uint8
  shows "(push_bit 8 (ucast a :: uint32) OR ucast b) = ucast (push_bit 8 (ucast a :: uint16) OR ucast b)"
  by (rule bit_word_eqI) (auto simp: bit_simps dest: bit_imp_le_length)

lemma back_eq:
  fixes w :: uint16
  shows "unat (drop_bit 3 (ucast w :: uint32) AND 0x07ff) = unat (drop_bit 3 w AND 0x7ff)"
proof -
  have "(drop_bit 3 (ucast w :: uint32) AND 0x07ff) = ucast (drop_bit 3 w AND 0x7ff)"
    by (rule bit_word_eqI) (auto simp: bit_simps dest: bit_imp_le_length)
  then show ?thesis by (simp only: unat_ucast_16_32)
qed

lemma n_eq:
  fixes w :: uint16
  shows "unat ((ucast w :: uint32) AND 7) = unat (w AND 7)"
proof -
  have "((ucast w :: uint32) AND 7) = ucast (w AND 7)"
    by (rule bit_word_eqI) (auto simp: bit_simps dest: bit_imp_le_length)
  then show ?thesis by (simp only: unat_ucast_16_32)
qed

lemma loop_unfold:
  "s < length src \<Longrightarrow> PalmdocUncompress_loop src s dst d =
     (case palm_token src s dst d of
        Ok (s', dst', d') \<Rightarrow> PalmdocUncompress_loop src s' dst' d'
      | Fail \<Rightarrow> Fail
      | Undefined \<Rightarrow> Undefined)"
  by (subst PalmdocUncompress_loop.simps) simp

lemma loop_done:
  "\<not> s < length src \<Longrightarrow> PalmdocUncompress_loop src s dst d = Ok (d, if d < length dst then dst[d := 0] else dst)"
  by (subst PalmdocUncompress_loop.simps) simp

lemma token_nul:
  "d < length dst \<Longrightarrow> unat (src ! s) = 0 \<Longrightarrow> palm_token src s dst d = Ok (s + 1, dst[d := 0], d + 1)"
  by (simp add: palm_token_def Let_def unat_eq_0)

lemma token_run:
  "1 \<le> unat (src ! s) \<Longrightarrow> unat (src ! s) \<le> 8 \<Longrightarrow> s + 1 + unat (src ! s) \<le> length src \<Longrightarrow>
   d + unat (src ! s) \<le> length dst \<Longrightarrow>
   palm_token src s dst d =
     Ok (s + 1 + unat (src ! s),
         take d dst @ take (unat (src ! s)) (drop (s + 1) src) @ drop (d + unat (src ! s)) dst,
         d + unat (src ! s))"
  by (simp add: palm_token_def Let_def copy_literal_eq)

lemma token_literal:
  "d < length dst \<Longrightarrow> 9 \<le> unat (src ! s) \<Longrightarrow> unat (src ! s) \<le> 127 \<Longrightarrow>
   palm_token src s dst d = Ok (s + 1, dst[d := src ! s], d + 1)"
  by (simp add: palm_token_def Let_def)

lemma token_space:
  "192 \<le> unat (src ! s) \<Longrightarrow> d + 2 \<le> length dst \<Longrightarrow>
   palm_token src s dst d = Ok (s + 1, dst[d := 0x20, d + 1 := (src ! s) XOR 0x80], d + 2)"
  by (simp add: palm_token_def Let_def)

lemma token_pair:
  fixes w :: uint16
  assumes c: "128 \<le> unat (src ! s)" "unat (src ! s) \<le> 191"
    and nxt: "s + 1 < length src"
    and w: "w = push_bit 8 (ucast (src ! s)) OR ucast (src ! (s + 1))"
    and bk: "back = unat (drop_bit 3 w AND 0x7FF)"
    and n: "n = unat (w AND 7) + 3"
    and ok: "back \<le> d" "d + n \<le> length dst"
  shows "palm_token src s dst d = Ok (s + 2, copy_back dst d back n, d + n)"
proof -
  let ?w = "push_bit 8 (ucast (src ! s) :: uint32) OR ucast (src ! (s + 1))"
  have w32: "?w = ucast w" by (simp add: w w32_of_w16)
  have b: "unat (drop_bit 3 ?w AND 0x07ff) = back" by (simp only: w32 bk back_eq)
  have m: "unat (?w AND 7) + 3 = n" by (simp only: w32 n n_eq)
  have pos: "0 < n" by (simp add: n)
  have "length dst - d \<noteq> 0" using ok pos by simp
  moreover have "\<not> length dst - d < n" using ok by simp
  ultimately show ?thesis
    using c nxt ok(1) unfolding palm_token_def Let_def b m by simp
qed

lemma literals_loop:
  "s \<le> length src \<Longrightarrow> list_all (\<lambda>b. 9 \<le> unat b \<and> unat b \<le> 127) (drop s src) \<Longrightarrow>
   d + (length src - s) \<le> length dst \<Longrightarrow>
   \<exists>buf. PalmdocUncompress_loop src s dst d = Ok (d + (length src - s), buf) \<and>
         length buf = length dst \<and>
         take (d + (length src - s)) buf = take d dst @ drop s src"
proof (induction "length src - s" arbitrary: s dst d)
  case 0
  then have "\<not> s < length src" by simp
  then show ?case using 0 by (simp add: loop_done)
next
  case (Suc k)
  then have s: "s < length src" by simp
  have hd: "9 \<le> unat (src ! s) \<and> unat (src ! s) \<le> 127"
    using Suc.prems(2) s by (simp add: Cons_nth_drop_Suc [symmetric])
  have tl: "list_all (\<lambda>b. 9 \<le> unat b \<and> unat b \<le> 127) (drop (s + 1) src)"
    using Suc.prems(2) s by (simp add: Cons_nth_drop_Suc [symmetric])
  have d: "d < length dst" using Suc.prems(3) s by simp
  have tok: "palm_token src s dst d = Ok (s + 1, dst[d := src ! s], d + 1)"
    using d hd by (simp add: token_literal)
  have k: "k = length src - (s + 1)" using Suc.hyps(2) by simp
  have "\<exists>buf. PalmdocUncompress_loop src (s + 1) (dst[d := src ! s]) (d + 1)
        = Ok (d + 1 + (length src - (s + 1)), buf) \<and>
      length buf = length (dst[d := src ! s]) \<and>
      take (d + 1 + (length src - (s + 1))) buf = take (d + 1) (dst[d := src ! s]) @ drop (s + 1) src"
    using k s tl Suc.prems(3) by (intro Suc.hyps(1)) simp_all
  then obtain buf where buf: "PalmdocUncompress_loop src (s + 1) (dst[d := src ! s]) (d + 1)
        = Ok (d + 1 + (length src - (s + 1)), buf)"
      "length buf = length (dst[d := src ! s])"
      "take (d + 1 + (length src - (s + 1))) buf = take (d + 1) (dst[d := src ! s]) @ drop (s + 1) src"
    by blast
  have e: "d + 1 + (length src - (s + 1)) = d + (length src - s)"
    using s by arith
  have r: "take (d + 1) (dst[d := src ! s]) @ drop (s + 1) src = take d dst @ drop s src"
    using s d by (simp add: take_Suc_conv_app_nth Cons_nth_drop_Suc)
  have "PalmdocUncompress_loop src s dst d = Ok (d + (length src - s), buf)"
    using s buf(1) unfolding e by (simp add: loop_unfold tok)
  moreover have "take (d + (length src - s)) buf = take d dst @ drop s src"
    using buf(3) unfolding e r .
  ultimately show ?case using buf(2) by simp
qed

text \<open>The loop gives the same result from every state it passes through.\<close>

lemma reaches_loop:
  "palm_reaches src st st' \<Longrightarrow>
   PalmdocUncompress_loop src (fst st) (fst (snd st)) (snd (snd st)) =
   PalmdocUncompress_loop src (fst st') (fst (snd st')) (snd (snd st'))"
proof (induction rule: palm_reaches.induct)
  case (here st)
  show ?case by simp
next
  case (token s dst d st' st'')
  then show ?case by (cases st') (simp add: loop_unfold)
qed

text \<open>
  Claim C2. \<^verbatim>\<open>PalmdocUncompress\<close> is its loop, entered at the start of the source and of the
  destination; its result is the result of the loop from every state \<open>(s, dst, d)\<close> it
  passes through, and at the end of the source it returns the count \<open>d\<close>. At every source
  byte \<open>c\<close> the loop goes on from the state the decoding table gives: with a byte of room
  in the destination, \<open>c = 0\<close> emits a NUL (the branch \<^verbatim>\<open>c < 128\<close>, whose \<^verbatim>\<open>assert(c != 0)\<close>
  has no \<^verbatim>\<open>if\<close> behind it) and \<open>9 \<le> c \<le> 127\<close> emits \<open>c\<close>;
  \<open>1 \<le> c \<le> 8\<close> copies the next \<open>c\<close> source bytes (when the source holds them and the
  destination has room for them); \<open>128 \<le> c \<le> 191\<close> joins \<open>c\<close> and the next source byte into
  the 16-bit \<open>w\<close> and copies \<open>n = (w AND 7) + 3\<close> bytes from \<open>bk = (w >> 3) AND 0x7FF\<close>
  bytes back, byte after byte, so that the copy may run into the bytes it has just written
  (when the distance stays inside the output and the destination has room);
  \<open>192 \<le> c\<close> emits a space and \<open>c XOR 0x80\<close> (with two bytes of room). A source made only
  of bytes \<open>0x09..0x7F\<close> that fits the destination decompresses to itself.
\<close>

theorem C2_palmdoc_decoding_table:
  fixes src dst dst0 src' dst' :: "uint8 list" and w :: uint16
  shows
  "PalmdocUncompress src dst = PalmdocUncompress_loop src 0 dst 0 \<and>
   (palm_reaches src (0, dst0, 0) (s, dst, d) \<longrightarrow>
      PalmdocUncompress src dst0 = PalmdocUncompress_loop src s dst d) \<and>
   (length src \<le> s \<longrightarrow>
      PalmdocUncompress_loop src s dst d = Ok (d, if d < length dst then dst[d := 0] else dst)) \<and>
   (s < length src \<and> d < length dst \<and> c = unat (src ! s) \<longrightarrow>
      PalmdocUncompress_loop src s dst d =
        (case palm_token src s dst d of
           Ok (s', dst', d') \<Rightarrow> PalmdocUncompress_loop src s' dst' d'
         | Fail \<Rightarrow> Fail
         | Undefined \<Rightarrow> Undefined) \<and>
      (c = 0 \<longrightarrow> palm_token src s dst d = Ok (s + 1, dst[d := 0], d + 1)) \<and>
      (1 \<le> c \<and> c \<le> 8 \<and> s + 1 + c \<le> length src \<and> d + c \<le> length dst \<longrightarrow>
         palm_token src s dst d =
           Ok (s + 1 + c, take d dst @ take c (drop (s + 1) src) @ drop (d + c) dst, d + c)) \<and>
      (9 \<le> c \<and> c \<le> 127 \<longrightarrow> palm_token src s dst d = Ok (s + 1, dst[d := src ! s], d + 1)) \<and>
      (128 \<le> c \<and> c \<le> 191 \<and> s + 1 < length src \<and>
       w = push_bit 8 (ucast (src ! s)) OR ucast (src ! (s + 1)) \<and>
       bk = unat (drop_bit 3 w AND 0x7FF) \<and> n = unat (w AND 7) + 3 \<and>
       bk \<le> d \<and> d + n \<le> length dst \<longrightarrow>
         (\<exists>out. palm_token src s dst d = Ok (s + 2, out, d + n) \<and> length out = length dst \<and>
            (\<forall>i<d. out ! i = dst ! i) \<and> (\<forall>i\<ge>d + n. out ! i = dst ! i) \<and>
            (\<forall>k<n. out ! (d + k) = (if bk = 0 then dst ! (d + k) else out ! (d + k - bk))))) \<and>
      (192 \<le> c \<and> d + 2 \<le> length dst \<longrightarrow>
         palm_token src s dst d = Ok (s + 1, dst[d := 0x20, d + 1 := (src ! s) XOR 0x80], d + 2))) \<and>
   (list_all (\<lambda>b. 9 \<le> unat b \<and> unat b \<le> 127) src' \<and> length src' \<le> length dst' \<longrightarrow>
      (\<exists>buf. PalmdocUncompress src' dst' = Ok (length src', buf) \<and> take (length src') buf = src'))"
proof (intro conjI impI)
  show "PalmdocUncompress src dst = PalmdocUncompress_loop src 0 dst 0"
    by (simp add: PalmdocUncompress_def)
next
  assume "palm_reaches src (0, dst0, 0) (s, dst, d)"
  then show "PalmdocUncompress src dst0 = PalmdocUncompress_loop src s dst d"
    using reaches_loop [of src "(0, dst0, 0)" "(s, dst, d)"] by (simp add: PalmdocUncompress_def)
next
  assume "length src \<le> s"
  then show "PalmdocUncompress_loop src s dst d = Ok (d, if d < length dst then dst[d := 0] else dst)"
    by (simp add: loop_done)
next
  assume "list_all (\<lambda>b. 9 \<le> unat b \<and> unat b \<le> 127) src' \<and> length src' \<le> length dst'"
  then show "\<exists>buf. PalmdocUncompress src' dst' = Ok (length src', buf) \<and> take (length src') buf = src'"
    using literals_loop [of 0 src' 0 dst'] by (auto simp: PalmdocUncompress_def)
next
  assume "s < length src \<and> d < length dst \<and> c = unat (src ! s)"
  then show "PalmdocUncompress_loop src s dst d =
        (case palm_token src s dst d of
           Ok (s', dst', d') \<Rightarrow> PalmdocUncompress_loop src s' dst' d'
         | Fail \<Rightarrow> Fail
         | Undefined \<Rightarrow> Undefined)"
    by (simp add: loop_unfold)
next
  assume "s < length src \<and> d < length dst \<and> c = unat (src ! s)" "c = 0"
  then show "palm_token src s dst d = Ok (s + 1, dst[d := 0], d + 1)"
    by (simp add: token_nul)
next
  assume "s < length src \<and> d < length dst \<and> c = unat (src ! s)"
    "1 \<le> c \<and> c \<le> 8 \<and> s + 1 + c \<le> length src \<and> d + c \<le> length dst"
  then show "palm_token src s dst d =
           Ok (s + 1 + c, take d dst @ take c (drop (s + 1) src) @ drop (d + c) dst, d + c)"
    by (simp add: token_run)
next
  assume "s < length src \<and> d < length dst \<and> c = unat (src ! s)" "9 \<le> c \<and> c \<le> 127"
  then show "palm_token src s dst d = Ok (s + 1, dst[d := src ! s], d + 1)"
    by (simp add: token_literal)
next
  assume a: "s < length src \<and> d < length dst \<and> c = unat (src ! s)"
    "128 \<le> c \<and> c \<le> 191 \<and> s + 1 < length src \<and>
       w = push_bit 8 (ucast (src ! s)) OR ucast (src ! (s + 1)) \<and>
       bk = unat (drop_bit 3 w AND 0x7FF) \<and> n = unat (w AND 7) + 3 \<and>
       bk \<le> d \<and> d + n \<le> length dst"
  then have h: "128 \<le> unat (src ! s)" "unat (src ! s) \<le> 191" "s + 1 < length src"
      "w = push_bit 8 (ucast (src ! s)) OR ucast (src ! (s + 1))"
      "bk = unat (drop_bit 3 w AND 0x7FF)" "n = unat (w AND 7) + 3"
      "bk \<le> d" "d + n \<le> length dst"
    by blast+
  have tok: "palm_token src s dst d = Ok (s + 2, copy_back dst d bk n, d + n)"
    by (rule token_pair [OF h])
  have "\<forall>k<n. copy_back dst d bk n ! (d + k) =
      (if bk = 0 then dst ! (d + k) else copy_back dst d bk n ! (d + k - bk))"
    using h(7,8) copy_back_nth [of bk d n dst] by (auto simp: copy_back_zero)
  then show "\<exists>out. palm_token src s dst d = Ok (s + 2, out, d + n) \<and> length out = length dst \<and>
            (\<forall>i<d. out ! i = dst ! i) \<and> (\<forall>i\<ge>d + n. out ! i = dst ! i) \<and>
            (\<forall>k<n. out ! (d + k) = (if bk = 0 then dst ! (d + k) else out ! (d + k - bk)))"
    using tok by (auto simp: copy_back_before copy_back_after)
next
  assume "s < length src \<and> d < length dst \<and> c = unat (src ! s)" "192 \<le> c \<and> d + 2 \<le> length dst"
  then show "palm_token src s dst d = Ok (s + 1, dst[d := 0x20, d + 1 := (src ! s) XOR 0x80], d + 2)"
    by (simp add: token_space)
qed

text \<open>The equations that evaluate the decompressor on a concrete input.\<close>

lemmas palm_eval = PalmdocUncompress_def PalmdocUncompress_loop.simps palm_token_def
  copy_literal.simps copy_back.simps Let_def

theorem C2_palmdoc_decoding_table_witness:
  "PalmdocUncompress [0] [1, 1] = Ok (1, [0, 0]) \<and>
   PalmdocUncompress [0x01, 0x41] [0, 0] = Ok (1, [0x41, 0]) \<and>
   PalmdocUncompress [0x41, 0x42, 0x43, 0x44, 0x45, 0x46, 0x47, 0x48, 0x80, 0x0B]
       [0, 0, 0, 0, 0, 0, 0, 0, 0, 0, 0, 0, 0, 0, 0, 0]
     = Ok (14, [0x41, 0x42, 0x43, 0x44, 0x45, 0x46, 0x47, 0x48,
                0x48, 0x48, 0x48, 0x48, 0x48, 0x48, 0, 0]) \<and>
   PalmdocUncompress [0xC1] [1, 1, 1] = Ok (2, [0x20, 0x41, 0]) \<and>
   palm_token [0] 0 [1, 1] 0 = Ok (1, [0, 1], 1) \<and>
   palm_token [0x01, 0x41] 0 [0, 0] 0 = Ok (2, [0x41, 0], 1) \<and>
   palm_token [0x41] 0 [0, 0] 0 = Ok (1, [0x41, 0], 1) \<and>
   palm_token [0x41, 0x42, 0x43, 0x44, 0x45, 0x46, 0x47, 0x48, 0x80, 0x0B] 8
       [0x41, 0x42, 0x43, 0x44, 0x45, 0x46, 0x47, 0x48, 0, 0, 0, 0, 0, 0, 0, 0] 8
     = Ok (10, [0x41, 0x42, 0x43, 0x44, 0x45, 0x46, 0x47, 0x48,
                0x48, 0x48, 0x48, 0x48, 0x48, 0x48, 0, 0], 14) \<and>
   palm_token [0xC1] 0 [0, 0] 0 = Ok (1, [0x20, 0x41], 2) \<and>
   (\<exists>buf. PalmdocUncompress [0x48, 0x69] [0, 0, 0] = Ok (2, buf) \<and> take 2 buf = [0x48, 0x69])"
proof -
  have nul: "palm_token [0] 0 [1, 1] 0 = Ok (1, [0, 1], 1)"
    using C2_palmdoc_decoding_table [where src = "[0]" and s = 0 and dst = "[1, 1]" and d = 0 and c = 0]
    by simp
  have run: "palm_token [0x01, 0x41] 0 [0, 0] 0 = Ok (2, [0x41, 0], 1)"
    using C2_palmdoc_decoding_table [where src = "[0x01, 0x41]" and s = 0 and dst = "[0, 0]" and d = 0 and c = 1]
    by simp
  have lit: "palm_token [0x41] 0 [0, 0] 0 = Ok (1, [0x41, 0], 1)"
    using C2_palmdoc_decoding_table [where src = "[0x41]" and s = 0 and dst = "[0, 0]" and d = 0 and c = 65]
    by simp
  have pair: "palm_token [0x41, 0x42, 0x43, 0x44, 0x45, 0x46, 0x47, 0x48, 0x80, 0x0B] 8
       [0x41, 0x42, 0x43, 0x44, 0x45, 0x46, 0x47, 0x48, 0, 0, 0, 0, 0, 0, 0, 0] 8
     = Ok (10, [0x41, 0x42, 0x43, 0x44, 0x45, 0x46, 0x47, 0x48,
                0x48, 0x48, 0x48, 0x48, 0x48, 0x48, 0, 0], 14)"
    using C2_palmdoc_decoding_table
      [where src = "[0x41, 0x42, 0x43, 0x44, 0x45, 0x46, 0x47, 0x48, 0x80, 0x0B]" and s = 8
         and dst = "[0x41, 0x42, 0x43, 0x44, 0x45, 0x46, 0x47, 0x48, 0, 0, 0, 0, 0, 0, 0, 0]"
         and d = 8 and c = 128 and w = "0x800B" and bk = 1 and n = 6]
    by (simp add: palm_eval)
  have space: "palm_token [0xC1] 0 [0, 0] 0 = Ok (1, [0x20, 0x41], 2)"
    using C2_palmdoc_decoding_table [where src = "[0xC1]" and s = 0 and dst = "[0, 0]" and d = 0 and c = 193]
    by simp
  have hyp: "list_all (\<lambda>b. 9 \<le> unat b \<and> unat b \<le> 127) [0x48, 0x69 :: uint8] \<and>
      length [0x48, 0x69 :: uint8] \<le> length [0, 0, 0 :: uint8]"
    by simp
  have len: "length [0x48, 0x69 :: uint8] = 2"
    by simp
  have ident: "\<exists>buf. PalmdocUncompress [0x48, 0x69] [0, 0, 0] = Ok (2, buf) \<and> take 2 buf = [0x48, 0x69]"
    using C2_palmdoc_decoding_table [THEN conjunct2, THEN conjunct2, THEN conjunct2, THEN conjunct2,
        rule_format, OF hyp] unfolding len .
  have r0: "palm_reaches [0] (0, [1, 1], 0) (1, [0, 1], 1)"
    by (rule palm_reaches.token [OF _ nul palm_reaches.here]) simp
  have e0: "PalmdocUncompress [0] [1, 1] = Ok (1, [0, 0])"
    using C2_palmdoc_decoding_table [where src = "[0]" and ?dst0.0 = "[1, 1]" and s = 1
        and dst = "[0, 1]" and d = 1] r0
    by simp
  have r1: "palm_reaches [0x01, 0x41] (0, [0, 0], 0) (2, [0x41, 0], 1)"
    by (rule palm_reaches.token [OF _ run palm_reaches.here]) simp
  have e1: "PalmdocUncompress [0x01, 0x41] [0, 0] = Ok (1, [0x41, 0])"
    using C2_palmdoc_decoding_table [where src = "[0x01, 0x41]" and ?dst0.0 = "[0, 0]" and s = 2
        and dst = "[0x41, 0]" and d = 1] r1
    by simp
  have e2: "PalmdocUncompress [0x41, 0x42, 0x43, 0x44, 0x45, 0x46, 0x47, 0x48, 0x80, 0x0B]
       [0, 0, 0, 0, 0, 0, 0, 0, 0, 0, 0, 0, 0, 0, 0, 0]
     = Ok (14, [0x41, 0x42, 0x43, 0x44, 0x45, 0x46, 0x47, 0x48,
                0x48, 0x48, 0x48, 0x48, 0x48, 0x48, 0, 0])"
    using C2_palmdoc_decoding_table
      [where src = "[0x41, 0x42, 0x43, 0x44, 0x45, 0x46, 0x47, 0x48, 0x80, 0x0B]"
         and dst = "[0, 0, 0, 0, 0, 0, 0, 0, 0, 0, 0, 0, 0, 0, 0, 0]", THEN conjunct1]
    by (simp add: PalmdocUncompress_loop.simps palm_token_def copy_literal.simps copy_back.simps Let_def)
  have r3: "palm_reaches [0xC1] (0, [1, 1, 1], 0) (1, [0x20, 0x41, 1], 2)"
    by (rule palm_reaches.token [OF _ _ palm_reaches.here]) (simp_all add: palm_token_def)
  have e3: "PalmdocUncompress [0xC1] [1, 1, 1] = Ok (2, [0x20, 0x41, 0])"
    using C2_palmdoc_decoding_table [where src = "[0xC1]" and ?dst0.0 = "[1, 1, 1]" and s = 1
        and dst = "[0x20, 0x41, 1]" and d = 2] r3
    by simp
  from e0 e1 e2 e3 nul run lit pair space ident show ?thesis by blast
qed

lemma token_fail_iff:
  "palm_token src s dst d = Fail \<longleftrightarrow> palm_no_room (src ! s) (length dst - d)"
  by (auto simp: palm_token_def palm_no_room_def Let_def)

lemma loop_fail_reaches:
  "PalmdocUncompress_loop src s dst d = Fail \<Longrightarrow>
   \<exists>s' dst' d'. palm_reaches src (s, dst, d) (s', dst', d') \<and> s' < length src \<and>
      palm_no_room (src ! s') (length dst' - d')"
proof (induction src s dst d rule: PalmdocUncompress_loop.induct)
  case (1 src s dst d)
  from "1.prems" have s: "s < length src"
    by (subst (asm) PalmdocUncompress_loop.simps) (simp split: if_splits)
  show ?case
  proof (cases "palm_token src s dst d")
    case (Ok st)
    obtain s1 dst1 d1 where st: "st = (s1, dst1, d1)" by (cases st)
    have "PalmdocUncompress_loop src s1 dst1 d1 = Fail"
      using "1.prems" s Ok st by (simp add: loop_unfold)
    then obtain s' dst' d' where "palm_reaches src (s1, dst1, d1) (s', dst', d')"
        "s' < length src" "palm_no_room (src ! s') (length dst' - d')"
      using "1.IH" [OF s Ok [unfolded st] refl refl] by blast
    moreover have "palm_reaches src (s, dst, d) (s', dst', d')"
      using s Ok st calculation(1) by (auto intro: palm_reaches.token)
    ultimately show ?thesis by blast
  next
    case Fail
    then have "palm_no_room (src ! s) (length dst - d)" by (simp add: token_fail_iff)
    then show ?thesis using s palm_reaches.here by blast
  next
    case Undefined
    then show ?thesis using "1.prems" s by (simp add: loop_unfold)
  qed
qed

lemma reaches_fail_loop:
  "palm_reaches src st st' \<Longrightarrow> fst st' < length src \<Longrightarrow>
   palm_no_room (src ! fst st') (length (fst (snd st')) - snd (snd st')) \<Longrightarrow>
   PalmdocUncompress_loop src (fst st) (fst (snd st)) (snd (snd st)) = Fail"
proof (induction rule: palm_reaches.induct)
  case (here st)
  then show ?case by (simp add: loop_unfold token_fail_iff [symmetric])
next
  case (token s dst d st' st'')
  then show ?case by (cases st') (simp add: loop_unfold)
qed

lemma loop_mid_pair:
  "s + 1 = length src \<Longrightarrow> 128 \<le> unat (src ! s) \<Longrightarrow> unat (src ! s) \<le> 191 \<Longrightarrow> d < length dst \<Longrightarrow>
   PalmdocUncompress_loop src s dst d = Ok (d, dst[d := 0])"
proof -
  assume a: "s + 1 = length src" "128 \<le> unat (src ! s)" "unat (src ! s) \<le> 191" "d < length dst"
  then have "palm_token src s dst d = Ok (s + 1, dst, d)"
    by (simp add: palm_token_def Let_def)
  then show ?thesis using a by (simp add: loop_unfold loop_done)
qed

text \<open>
  Claim C5, as the code has it. The claim lists three errors; the code returns \<^verbatim>\<open>-1\<close> for
  one of them only, and the function's comment says so (\<^verbatim>\<open>-1 on error (if destination buffer
  too small)\<close>). \<^verbatim>\<open>PalmdocUncompress\<close> returns the error exactly when the loop comes to a token
  for which the destination has no room at one of its three checks: nothing free at the start
  of a token, fewer than \<open>c\<close> bytes free for a literal run of \<open>c\<close>, fewer than two for a space
  pair. A source that ends on the first byte of a back-reference pair is no error: the guard
  \<^verbatim>\<open>if (src < srcEnd)\<close> drops the byte and the count so far is returned. (A back-reference
  that points before the output or copies past the destination is only asserted: \<open>Undefined\<close>
  here, and no part of this statement.)
\<close>

theorem C5_palmdoc_error_is_no_room:
  "(PalmdocUncompress src dst = Fail \<longleftrightarrow>
      (\<exists>s' dst' d'. palm_reaches src (0, dst, 0) (s', dst', d') \<and> s' < length src \<and>
         palm_no_room (src ! s') (length dst' - d'))) \<and>
   (s + 1 = length src \<and> 128 \<le> unat (src ! s) \<and> unat (src ! s) \<le> 191 \<and> d < length dst \<longrightarrow>
      PalmdocUncompress_loop src s dst d = Ok (d, dst[d := 0]))"
proof (intro conjI iffI impI)
  assume "PalmdocUncompress src dst = Fail"
  then show "\<exists>s' dst' d'. palm_reaches src (0, dst, 0) (s', dst', d') \<and> s' < length src \<and>
         palm_no_room (src ! s') (length dst' - d')"
    by (simp add: PalmdocUncompress_def loop_fail_reaches)
next
  assume "\<exists>s' dst' d'. palm_reaches src (0, dst, 0) (s', dst', d') \<and> s' < length src \<and>
         palm_no_room (src ! s') (length dst' - d')"
  then show "PalmdocUncompress src dst = Fail"
    using reaches_fail_loop [of src "(0, dst, 0)"] by (auto simp: PalmdocUncompress_def)
next
  assume "s + 1 = length src \<and> 128 \<le> unat (src ! s) \<and> unat (src ! s) \<le> 191 \<and> d < length dst"
  then show "PalmdocUncompress_loop src s dst d = Ok (d, dst[d := 0])"
    by (simp add: loop_mid_pair)
qed

theorem C5_palmdoc_error_is_no_room_witness:
  "PalmdocUncompress [0x41, 0xC1] [0, 0] = Fail \<and>
   PalmdocUncompress_loop [0x41, 0x80] 1 [0x41, 0, 0] 1 = Ok (1, [0x41, 0, 0])"
proof -
  have "palm_token [0x41, 0xC1] 0 [0, 0] 0 = Ok (1, [0x41, 0], 1)"
    by (simp add: palm_token_def)
  then have "palm_reaches [0x41, 0xC1] (0, [0, 0], 0) (1, [0x41, 0], 1)"
    by (intro palm_reaches.token [OF _ _ palm_reaches.here]) simp_all
  moreover have "palm_no_room ([0x41, 0xC1] ! 1) (length [0x41, 0 :: uint8] - 1)"
    by (simp add: palm_no_room_def)
  ultimately have "\<exists>s' dst' d'. palm_reaches [0x41, 0xC1] (0, [0, 0], 0) (s', dst', d') \<and>
      s' < length [0x41, 0xC1 :: uint8] \<and> palm_no_room ([0x41, 0xC1] ! s') (length dst' - d')"
    by (intro exI [of _ 1] exI [of _ "[0x41, 0]"]) simp
  then have fail: "PalmdocUncompress [0x41, 0xC1] [0, 0] = Fail"
    using C5_palmdoc_error_is_no_room [where src = "[0x41, 0xC1]" and dst = "[0, 0]", THEN conjunct1]
    by blast
  have "PalmdocUncompress_loop [0x41, 0x80] 1 [0x41, 0, 0] 1 = Ok (1, [0x41, 0, 0][1 := 0])"
    using C5_palmdoc_error_is_no_room
      [where src = "[0x41, 0x80]" and s = 1 and dst = "[0x41, 0, 0]" and d = 1, THEN conjunct2]
    by simp
  with fail show ?thesis by simp
qed

text \<open>
  Claim C5 as stated fails: the source \<open>[0x80]\<close> ends in the middle of a two-byte pair, and
  the decompressor returns the count 0, not the error.
\<close>

theorem C5_palmdoc_lone_pair_byte_counterexample:
  "PalmdocUncompress [0x80] [0, 0, 0, 0] = Ok (0, [0, 0, 0, 0])"
  by (simp add: palm_eval)

section \<open>Properties of trailer stripping\<close>

text \<open>The equations that evaluate \<^verbatim>\<open>ExtraDataSize\<close> on a concrete record.\<close>

lemmas trailer_eval = ExtraDataSize_def visible_len_def strip_multibyte_def strip_trailers.simps
  trailer_n_def trailer_step_def Let_def

text \<open>
  Claim C6 says that the visible length never goes below zero, each step subtracting only
  when the length allows it. The code states the two conditions as assertions
  (\<^verbatim>\<open>assert(newLen > n)\<close>, \<^verbatim>\<open>assert(newLen >= n)\<close>) and subtracts whatever they say. With
  the multibyte flag, the one-byte record \<open>[0x03]\<close> gives \<open>m = (0x03 AND 3) + 1 = 4\<close>: the
  visible length 1 becomes \<open>1 - 4\<close> in \<^verbatim>\<open>size_t\<close>, and \<^verbatim>\<open>ExtraDataSize\<close> reports 4 extra bytes
  in a record of one. With one trailer, the record \<open>[0, 0, 0, 0x05]\<close> decodes \<open>n = 5\<close> and
  the visible length 4 becomes \<open>4 - 5\<close>.
\<close>

theorem C6_ExtraDataSize_below_zero:
  "visible_len [0x03] 0 True = Ok 0xFFFFFFFFFFFFFFFD \<and>
   ExtraDataSize [0x03] 0 True = Ok 4 \<and>
   visible_len [0, 0, 0, 0x05] 1 False = Ok 0xFFFFFFFFFFFFFFFF \<and>
   ExtraDataSize [0, 0, 0, 0x05] 1 False = Ok 5"
  by (simp add: trailer_eval)

section \<open>Properties of the HUFF/CDIC decompressor\<close>

lemmas huff_consts = kHuffHeaderLen_def kCacheDataLen_def kBaseTableDataLen_def kHuffRecordMinLen_def
  kCdicHeaderLen_def kCdicsMax_def

lemma SetHuffData_rejects_HUFF: "strncmp_eq ''HUFF'' huffData 0 \<Longrightarrow> SetHuffData h huffData = Fail"
  by (simp add: SetHuffData_def Let_def)

lemma AddCdicData_rejects_CDIC:
  "kCdicHeaderLen \<le> length cdicData \<Longrightarrow> strncmp_eq ''CDIC'' cdicData 0 \<Longrightarrow> AddCdicData h cdicData = Fail"
  by (simp add: AddCdicData_def Let_def)

text \<open>
  Claim C4 says that configuration succeeds only for records that carry their tag, and that
  a record with the tag and the header length is not rejected by the tag test. The code has
  the test inverted in both phases (\<^verbatim>\<open>if (!strncmp("HUFF", ...)) return false;\<close>, where
  \<^verbatim>\<open>parseHeader\<close> writes \<^verbatim>\<open>if (strncmp("MOBI", ...))\<close>): a well-formed \<^verbatim>\<open>HUFF\<close> record of the
  minimal length, header length 24, is rejected, and the same record under the tag
  \<^verbatim>\<open>XUFF\<close> is accepted; likewise a \<^verbatim>\<open>CDIC\<close> record with a 16-byte header, code length 8 and
  300 bytes of dictionary.
\<close>

theorem C4_tag_tests_inverted:
  "SetHuffData HuffDicDecompressor_new
     (bytes_of ''HUFF'' @ [0, 0, 0, 24, 0, 0, 0, 24, 0, 0, 4, 24, 0, 0, 0, 0, 0, 0, 0, 0] @ replicate 1280 0)
     = Fail \<and>
   SetHuffData HuffDicDecompressor_new
     (bytes_of ''XUFF'' @ [0, 0, 0, 24, 0, 0, 0, 24, 0, 0, 4, 24, 0, 0, 0, 0, 0, 0, 0, 0] @ replicate 1280 0)
     \<noteq> Fail \<and>
   AddCdicData HuffDicDecompressor_new
     (bytes_of ''CDIC'' @ [0, 0, 0, 16, 0, 0, 0, 0, 0, 0, 0, 8] @ replicate 300 0)
     = Fail \<and>
   AddCdicData HuffDicDecompressor_new
     (bytes_of ''XDIC'' @ [0, 0, 0, 16, 0, 0, 0, 0, 0, 0, 0, 8] @ replicate 300 0)
     \<noteq> Fail"
  by (simp add: SetHuffData_def AddCdicData_def strncmp_eq_def bytes_of_def ReadBeU32_def huff_consts
      Let_def nth_append)

text \<open>The equations that evaluate \<^verbatim>\<open>DecodeOne\<close> on a concrete code.\<close>

lemmas huff_eval = DecodeOne.simps dictsCount_def dictSize_def ReadBeU16_def Let_def

text \<open>
  Claim C3 says that symbol decoding fails when \<open>dict = code >> code_length\<close> is not below
  \<^verbatim>\<open>dictsCount\<close>, and that no dictionary access leaves its slice. The code tests
  \<^verbatim>\<open>dict > dictsCount\<close>: with one dictionary and code length 8, the code \<open>0x100\<close> has
  \<open>dict = 1 = dictsCount\<close>, passes the test and reads \<^verbatim>\<open>dicts[1]\<close>, which was never set
  (\<open>0x200\<close>, with \<open>dict = 2\<close>, is refused). The offset test \<^verbatim>\<open>offset > dictSize[dict]\<close> lets
  \<open>offset = dictSize\<close> through as well: a dictionary of 600 bytes whose entry 0 holds the
  offset 600 has its symbol length read at the bytes 600 and 601, past its end. The first
  case is reached from a bit stream: with the cache entry \<open>0x10081\<close> (terminal, code length
  1, value \<open>0x100\<close>) the stream \<open>[0x00]\<close> makes \<^verbatim>\<open>Decompress\<close> pass the code \<open>0x100\<close>.
\<close>

theorem C3_DecodeOne_reads_outside:
  "DecodeOne 1 \<lparr>cacheTable = replicate 256 0, baseTable = replicate 64 0,
                 dicts = [replicate 600 0], code_length = 8\<rparr> 0x100 (replicate 16 0) 0 = Undefined \<and>
   DecodeOne 1 \<lparr>cacheTable = replicate 256 0, baseTable = replicate 64 0,
                 dicts = [replicate 600 0], code_length = 8\<rparr> 0x200 (replicate 16 0) 0 = Fail \<and>
   DecodeOne 1 \<lparr>cacheTable = replicate 256 0, baseTable = replicate 64 0,
                 dicts = [[0x02, 0x58] @ replicate 598 0], code_length = 8\<rparr> 0 (replicate 16 0) 0 = Undefined \<and>
   Decompress 1 \<lparr>cacheTable = 0x10081 # replicate 255 0, baseTable = replicate 64 0,
                 dicts = [replicate 600 0], code_length = 8\<rparr> [0x00] (replicate 16 0) = Undefined"
proof (intro conjI)
  show "Decompress 1 \<lparr>cacheTable = 0x10081 # replicate 255 0, baseTable = replicate 64 0,
                 dicts = [replicate 600 0], code_length = 8\<rparr> [0x00] (replicate 16 0) = Undefined"
    by code_simp
qed (simp_all add: huff_eval)

section \<open>Properties of the image array\<close>

lemma loadImage_slots:
  "loadImage f b i = Ok (c, b') \<Longrightarrow>
   length (images b') = length (images b) \<and> imagesCount b' = imagesCount b"
  by (auto simp: loadImage_def split: outcome.splits option.splits if_splits)

lemma loadImages_loop_slots:
  "loadImages_loop f n b i = Ok b' \<Longrightarrow>
   length (images b') = length (images b) \<and> imagesCount b' = imagesCount b"
proof (induction f n b i rule: loadImages_loop.induct)
  case (1 f n b i)
  show ?case
  proof (cases "i < n")
    case False
    then show ?thesis using "1.prems" by (simp add: loadImages_loop.simps)
  next
    case True
    show ?thesis
    proof (cases "loadImage f b i")
      case (Ok r)
      obtain c b1 where r: "r = (c, b1)" by (cases r)
      have s: "length (images b1) = length (images b) \<and> imagesCount b1 = imagesCount b"
        using Ok r by (auto dest: loadImage_slots)
      show ?thesis
      proof (cases c)
        case True
        have "loadImages_loop f n b1 (i + 1) = Ok b'"
          using "1.prems" \<open>i < n\<close> Ok r True by (simp add: loadImages_loop.simps)
        then show ?thesis
          using "1.IH" [OF \<open>i < n\<close> Ok r [symmetric]] True s by simp
      next
        case False
        then show ?thesis
          using "1.prems" \<open>i < n\<close> Ok r s by (simp add: loadImages_loop.simps)
      qed
    next
      case Fail
      then show ?thesis using "1.prems" True by (simp add: loadImages_loop.simps)
    next
      case Undefined
      then show ?thesis using "1.prems" True by (simp add: loadImages_loop.simps)
    qed
  qed
qed

lemma loadImages_slots:
  "loadImages f b = Ok b' \<Longrightarrow> images b = [] \<Longrightarrow> length (images b') = imagesCount b'"
  by (auto simp: loadImages_def split: if_splits dest: loadImages_loop_slots)

lemma loadImage_stores:
  "readRecord f b (imageFirstRec b + i) = Ok (Some d) \<Longrightarrow> d \<noteq> [] \<Longrightarrow> \<not> IsEofRecord d \<Longrightarrow>
   \<not> KnownNonImageRec d \<Longrightarrow> i < length (images b) \<Longrightarrow> loadImage f b i = Ok (c, b') \<Longrightarrow>
   c \<and> data (images b' ! i) = Some d \<and> len (images b' ! i) = length d"
  by (auto simp: loadImage_def split: outcome.splits)

text \<open>
  Claim C9. In a book whose image array has its \<^verbatim>\<open>imagesCount\<close> slots, as \<^verbatim>\<open>loadImages\<close>
  leaves it: if slot \<open>i\<close> holds an image (its \<^verbatim>\<open>data\<close> is set and its \<^verbatim>\<open>len\<close> is not zero),
  \<^verbatim>\<open>getImage(i + 1)\<close> returns the pointer to slot \<open>i\<close>, and that is so for the record
  \<open>d\<close> that \<^verbatim>\<open>loadImage(i)\<close> has just stored there; \<^verbatim>\<open>getImage\<close> returns the null pointer for
  the index 0, for every index above \<^verbatim>\<open>imagesCount\<close>, and for every index in range whose
  slot is empty.
\<close>

theorem C9_getImage_recindex:
  "length (images b) = imagesCount b \<longrightarrow>
     (i < imagesCount b \<and> data (images b ! i) \<noteq> None \<and> len (images b ! i) \<noteq> 0 \<longrightarrow>
        getImage b (i + 1) = Ok (Some i)) \<and>
     (i < imagesCount b \<and> readRecord f b (imageFirstRec b + i) = Ok (Some d) \<and> d \<noteq> [] \<and>
      \<not> IsEofRecord d \<and> \<not> KnownNonImageRec d \<and> loadImage f b i = Ok (c, b') \<longrightarrow>
        getImage b' (i + 1) = Ok (Some i) \<and> data (images b' ! i) = Some d) \<and>
     getImage b 0 = Ok None \<and>
     (imagesCount b < k \<longrightarrow> getImage b k = Ok None) \<and>
     (1 \<le> k \<and> k \<le> imagesCount b \<and>
      (data (images b ! (k - 1)) = None \<or> len (images b ! (k - 1)) = 0) \<longrightarrow>
        getImage b k = Ok None)"
proof (intro impI conjI)
  assume n: "length (images b) = imagesCount b"
  assume "i < imagesCount b \<and> readRecord f b (imageFirstRec b + i) = Ok (Some d) \<and> d \<noteq> [] \<and>
      \<not> IsEofRecord d \<and> \<not> KnownNonImageRec d \<and> loadImage f b i = Ok (c, b')"
  then have a: "i < imagesCount b" "readRecord f b (imageFirstRec b + i) = Ok (Some d)" "d \<noteq> []"
      "\<not> IsEofRecord d" "\<not> KnownNonImageRec d" "loadImage f b i = Ok (c, b')"
    by blast+
  have st: "data (images b' ! i) = Some d \<and> len (images b' ! i) = length d"
    using loadImage_stores [OF a(2-5) _ a(6)] a(1) n by simp
  have sl: "length (images b') = length (images b) \<and> imagesCount b' = imagesCount b"
    using a(6) by (rule loadImage_slots)
  show "getImage b' (i + 1) = Ok (Some i)"
    using st sl a(1,3) n by (simp add: getImage_def)
  show "data (images b' ! i) = Some d"
    using st by simp
qed (auto simp: getImage_def Let_def)

theorem C9_getImage_recindex_witness:
  "getImage (MobiBook_new\<lparr>imagesCount := 2, images := [gif5, empty_slot]\<rparr>) 1 = Ok (Some 0) \<and>
   getImage (MobiBook_new\<lparr>imagesCount := 2, images := [gif5, empty_slot]\<rparr>) 0 = Ok None \<and>
   getImage (MobiBook_new\<lparr>imagesCount := 2, images := [gif5, empty_slot]\<rparr>) 3 = Ok None \<and>
   getImage (MobiBook_new\<lparr>imagesCount := 2, images := [gif5, empty_slot]\<rparr>) 2 = Ok None \<and>
   loadImage gif_file gif_book 0 = Ok (True, gif_book\<lparr>images := [gif5]\<rparr>) \<and>
   getImage (gif_book\<lparr>images := [gif5]\<rparr>) 1 = Ok (Some 0)"
proof -
  let ?b = "MobiBook_new\<lparr>imagesCount := 2, images := [gif5, empty_slot]\<rparr>"
  have two: "getImage ?b 1 = Ok (Some 0) \<and> getImage ?b 0 = Ok None \<and> getImage ?b 3 = Ok None \<and>
      getImage ?b 2 = Ok None"
    using C9_getImage_recindex [where b = ?b and i = 0 and k = 3]
      C9_getImage_recindex [where b = ?b and i = 0 and k = 2]
    by (simp add: gif5_def empty_slot_def)
  have rd: "readRecord gif_file gif_book (imageFirstRec gif_book + 0) = Ok (Some [0x47, 0x49, 0x46, 0x38, 0x39])"
    by (simp add: readRecord_def getRecordSize_def fread_at_def gif_file_def gif_book_def)
  have ld: "loadImage gif_file gif_book 0 = Ok (True, gif_book\<lparr>images := [gif5]\<rparr>)"
    by (simp add: loadImage_def rd [simplified] IsEofRecord_def KnownNonImageRec_def GetUpToFour_def
        ImageType_def magic_eq_def JPG_MAGIC_def PNG_MAGIC_def GIF_MAGIC_def gif5_def
        FLIS_REC_def FCIS_REC_def FDST_REC_def DATP_REC_def SRCS_REC_def VIDE_REC_def)
      (simp add: gif_book_def)
  have "getImage (gif_book\<lparr>images := [gif5]\<rparr>) (0 + 1) = Ok (Some 0)"
    using C9_getImage_recindex [where b = gif_book and i = 0 and f = gif_file
        and d = "[0x47, 0x49, 0x46, 0x38, 0x39]" and c = True and b' = "gif_book\<lparr>images := [gif5]\<rparr>"]
      rd ld
    by (simp add: gif_book_def IsEofRecord_def KnownNonImageRec_def GetUpToFour_def
        FLIS_REC_def FCIS_REC_def FDST_REC_def DATP_REC_def SRCS_REC_def VIDE_REC_def)
  with two ld show ?thesis by simp
qed

lemma readRecord_not_Fail: "readRecord f b n \<noteq> Fail"
  by (simp add: readRecord_def)

lemma magic_eq_not_Fail: "magic_eq d m \<noteq> Fail"
  by (simp add: magic_eq_def)

lemma ImageType_not_Fail: "ImageType d \<noteq> Fail"
  using magic_eq_not_Fail
  by (auto simp: ImageType_def split: outcome.splits bool.splits)

lemma loadImage_not_Fail: "loadImage f b i \<noteq> Fail"
  using readRecord_not_Fail [of f b "imageFirstRec b + i"] ImageType_not_Fail
  by (auto simp: loadImage_def split: outcome.splits option.splits)

lemma loadImages_loop_not_Fail: "loadImages_loop f n b i \<noteq> Fail"
proof (induction f n b i rule: loadImages_loop.induct)
  case (1 f n b i)
  show ?case
  proof (cases "i < n")
    case False
    then show ?thesis by (simp add: loadImages_loop.simps)
  next
    case True
    show ?thesis
    proof (cases "loadImage f b i")
      case (Ok r)
      obtain c b1 where r: "r = (c, b1)" by (cases r)
      show ?thesis
      proof (cases c)
        case True
        then have "loadImages_loop f n b i = loadImages_loop f n b1 (i + 1)"
          using \<open>i < n\<close> Ok r by (simp add: loadImages_loop.simps)
        then show ?thesis
          using "1.IH" [OF \<open>i < n\<close> Ok r [symmetric]] True by simp
      next
        case False
        then show ?thesis using \<open>i < n\<close> Ok r by (simp add: loadImages_loop.simps)
      qed
    next
      case Fail
      then show ?thesis using loadImage_not_Fail by blast
    next
      case Undefined
      then show ?thesis using True by (simp add: loadImages_loop.simps)
    qed
  qed
qed

lemma loadImages_not_Fail: "loadImages f b \<noteq> Fail"
  by (simp add: loadImages_def loadImages_loop_not_Fail)

lemma loadImage_skip:
  "readRecord f b (imageFirstRec b + i) = Ok None \<or> readRecord f b (imageFirstRec b + i) = Ok (Some []) \<Longrightarrow>
   loadImage f b i = Ok (True, b)"
  by (auto simp: loadImage_def)

lemma loadImage_only_images: "loadImage f b i = Ok (c, b') \<Longrightarrow> b' = b\<lparr>images := images b'\<rparr>"
  by (auto simp: loadImage_def split: outcome.splits option.splits if_splits)

lemma readRecord_images [simp]: "readRecord f (b\<lparr>images := x\<rparr>) n = readRecord f b n"
  by (simp add: readRecord_def getRecordSize_def)

lemma record_text_images [simp]:
  "record_text stack buf f (b\<lparr>images := x\<rparr>) i = record_text stack buf f b i"
  by (simp add: record_text_def Let_def cong: outcome.case_cong option.case_cong if_cong)

lemma loadDocument_loop_images:
  "loadDocument_loop stack buf f n (b\<lparr>images := x\<rparr>) i =
     (case loadDocument_loop stack buf f n b i of
        Ok b' \<Rightarrow> Ok (b'\<lparr>images := x\<rparr>)
      | Fail \<Rightarrow> Fail
      | Undefined \<Rightarrow> Undefined)"
proof (induction stack buf f n b i rule: loadDocument_loop.induct)
  case (1 stack buf f n b i)
  show ?case
  proof (cases "i \<le> n")
    case False
    then show ?thesis by (simp add: loadDocument_loop.simps)
  next
    case True
    show ?thesis
    proof (cases "record_text stack buf f b i")
      case (Ok t)
      have step: "loadDocRecordIntoBuffer stack buf f b i = Ok (b\<lparr>doc := doc b @ t\<rparr>)"
        by (simp add: loadDocRecordIntoBuffer_def Ok)
      have step': "loadDocRecordIntoBuffer stack buf f (b\<lparr>images := x\<rparr>) i
          = Ok ((b\<lparr>doc := doc b @ t\<rparr>)\<lparr>images := x\<rparr>)"
        by (simp add: loadDocRecordIntoBuffer_def Ok)
      have "loadDocument_loop stack buf f n (b\<lparr>images := x\<rparr>) i
          = loadDocument_loop stack buf f n ((b\<lparr>doc := doc b @ t\<rparr>)\<lparr>images := x\<rparr>) (i + 1)"
        using True step' by (subst loadDocument_loop.simps) simp
      also have "\<dots> = (case loadDocument_loop stack buf f n (b\<lparr>doc := doc b @ t\<rparr>) (i + 1) of
          Ok b' \<Rightarrow> Ok (b'\<lparr>images := x\<rparr>) | Fail \<Rightarrow> Fail | Undefined \<Rightarrow> Undefined)"
        by (rule "1.IH" [OF True step])
      also have "loadDocument_loop stack buf f n (b\<lparr>doc := doc b @ t\<rparr>) (i + 1)
          = loadDocument_loop stack buf f n b i"
        using True step by (subst (2) loadDocument_loop.simps) simp
      finally show ?thesis .
    next
      case Fail
      then show ?thesis
        using True by (simp add: loadDocument_loop.simps loadDocRecordIntoBuffer_def)
    next
      case Undefined
      then show ?thesis
        using True by (simp add: loadDocument_loop.simps loadDocRecordIntoBuffer_def)
    qed
  qed
qed

lemma loadDocument_images:
  "loadDocument stack buf f (b\<lparr>images := x\<rparr>) =
     (case loadDocument stack buf f b of
        Ok b' \<Rightarrow> Ok (b'\<lparr>images := x\<rparr>)
      | Fail \<Rightarrow> Fail
      | Undefined \<Rightarrow> Undefined)"
  by (simp add: loadDocument_def loadDocument_loop_images)

text \<open>
  Claim C10. If the read of the record of image slot \<open>i\<close> fails (\<^verbatim>\<open>readRecord\<close> returns the
  null pointer) or the record has length zero, \<^verbatim>\<open>loadImage(i)\<close> returns \<^verbatim>\<open>true\<close> and leaves
  the book as it was, so the slot stays empty, and the loop of \<^verbatim>\<open>loadImages\<close> goes on with
  slot \<open>i + 1\<close>. No image read is surfaced as an error of \<^verbatim>\<open>open()\<close>: \<^verbatim>\<open>loadImages\<close> never
  fails; once the headers and tables are parsed, \<^verbatim>\<open>parseHeader\<close> returns what \<^verbatim>\<open>loadImages\<close>
  leaves; and whether \<^verbatim>\<open>loadDocument\<close> then fails does not depend on the image array.
\<close>

theorem C10_failed_image_read_is_skipped:
  "(i < n \<and>
    (readRecord f b (imageFirstRec b + i) = Ok None \<or>
     readRecord f b (imageFirstRec b + i) = Ok (Some [])) \<longrightarrow>
      loadImage f b i = Ok (True, b) \<and>
      loadImages_loop f n b i = loadImages_loop f n b (i + 1)) \<and>
   loadImages f b \<noteq> Fail \<and>
   (parse_mobi_front f b0 rec0 = Ok b5 \<longrightarrow>
      parse_mobi f b0 rec0 = loadImages f b5 \<and> parse_mobi f b0 rec0 \<noteq> Fail) \<and>
   (loadDocument stack buf f (b\<lparr>images := x\<rparr>) = Fail \<longleftrightarrow> loadDocument stack buf f b = Fail)"
proof (intro conjI impI)
  assume a: "i < n \<and>
    (readRecord f b (imageFirstRec b + i) = Ok None \<or>
     readRecord f b (imageFirstRec b + i) = Ok (Some []))"
  then show s: "loadImage f b i = Ok (True, b)"
    by (simp add: loadImage_skip)
  show "loadImages_loop f n b i = loadImages_loop f n b (i + 1)"
    using a s by (subst loadImages_loop.simps) simp
next
  show "loadImages f b \<noteq> Fail"
    by (rule loadImages_not_Fail)
next
  assume "parse_mobi_front f b0 rec0 = Ok b5"
  then show e: "parse_mobi f b0 rec0 = loadImages f b5"
    by (simp add: parse_mobi_def)
  show "parse_mobi f b0 rec0 \<noteq> Fail"
    unfolding e by (rule loadImages_not_Fail)
next
  show "loadDocument stack buf f (b\<lparr>images := x\<rparr>) = Fail \<longleftrightarrow> loadDocument stack buf f b = Fail"
    by (simp add: loadDocument_images split: outcome.splits)
qed

theorem C10_failed_image_read_is_skipped_witness:
  "loadImage (two_images_file\<lparr>io_error := [0]\<rparr>) two_images_book 0 = Ok (True, two_images_book) \<and>
   loadImage (two_images_file\<lparr>io_error := [0]\<rparr>) two_images_book 1 = Ok (True, two_images_book) \<and>
   loadImages (two_images_file\<lparr>io_error := [0]\<rparr>) two_images_book
     = Ok (two_images_book\<lparr>images := [empty_slot, empty_slot, png8]\<rparr>) \<and>
   (case createFromFile 1 (replicate 6000 0) (cover_file\<lparr>io_error := [400]\<rparr>) of
      Ok b \<Rightarrow> images b = [empty_slot, empty_slot, png8]
    | Fail \<Rightarrow> False
    | Undefined \<Rightarrow> False)"
proof -
  let ?f = "two_images_file\<lparr>io_error := [0]\<rparr>"
  let ?b = "two_images_book"
  have r0: "readRecord ?f ?b (imageFirstRec ?b + 0) = Ok None"
    by code_simp
  have r1: "readRecord ?f ?b (imageFirstRec ?b + 1) = Ok (Some [])"
    by code_simp
  have s0: "loadImage ?f ?b 0 = Ok (True, ?b)"
    and l0: "loadImages_loop ?f 3 ?b 0 = loadImages_loop ?f 3 ?b (Suc 0)"
    using C10_failed_image_read_is_skipped [where f = ?f and b = ?b and i = 0 and n = 3] r0
    by simp_all
  have s1: "loadImage ?f ?b 1 = Ok (True, ?b)"
    and l1: "loadImages_loop ?f 3 ?b (Suc 0) = loadImages_loop ?f 3 ?b (Suc (Suc 0))"
    using C10_failed_image_read_is_skipped [where f = ?f and b = ?b and i = "Suc 0" and n = 3] r1
    by simp_all
  have l2: "loadImages_loop ?f 3 ?b (Suc (Suc 0)) = Ok (?b\<lparr>images := [empty_slot, empty_slot, png8]\<rparr>)"
    by code_simp
  have start: "loadImages ?f ?b = loadImages_loop ?f 3 ?b 0"
    by (simp add: loadImages_def two_images_book_def MobiBook_new_def numeral_3_eq_3)
  have all: "loadImages ?f ?b = Ok (?b\<lparr>images := [empty_slot, empty_slot, png8]\<rparr>)"
    by (simp only: start l0 l1 l2)
  have whole: "case createFromFile 1 (replicate 6000 0) (cover_file\<lparr>io_error := [400]\<rparr>) of
      Ok b \<Rightarrow> images b = [empty_slot, empty_slot, png8]
    | Fail \<Rightarrow> False
    | Undefined \<Rightarrow> False"
    by code_simp
  from s0 s1 all whole show ?thesis by blast
qed

section \<open>Properties of the cover selection\<close>

lemma cover_scan_done: "\<not> i < m \<Longrightarrow> cover_scan imgs m i c s = (c, s)"
  by (subst cover_scan.simps) simp

lemma cover_scan_step:
  "i < m \<Longrightarrow> cover_scan imgs m i c s =
     (if data (imgs ! i) = None then cover_scan imgs m (i + 1) c s
      else if s < len (imgs ! i) then cover_scan imgs m (i + 1) i (len (imgs ! i))
      else cover_scan imgs m (i + 1) c s)"
  by (subst cover_scan.simps) simp

lemma getCover_fallback:
  assumes n: "length (images b) = imagesCount b" and c: "coverImage b < 0"
  shows "getCover b =
     Ok (let l0 = (if 0 < imagesCount b \<and> data (images b ! 0) \<noteq> None then len (images b ! 0) else 0);
             l1 = (if 1 < imagesCount b \<and> data (images b ! 1) \<noteq> None then len (images b ! 1) else 0)
         in if l0 = 0 \<and> l1 = 0 then None else if l0 < l1 then Some 1 else Some 0)"
proof -
  consider "imagesCount b = 0" | "imagesCount b = 1" | "2 \<le> imagesCount b"
    by arith
  then show ?thesis
  proof cases
    case 1
    then show ?thesis
      using c n by (simp add: getCover_def cover_scan_done)
  next
    case 2
    then have m: "min (imagesCount b) 2 = Suc 0" by simp
    show ?thesis
      using c n 2 unfolding getCover_def Let_def m
      by (simp add: cover_scan_step cover_scan_done)
  next
    case 3
    then have m: "min (imagesCount b) 2 = Suc (Suc 0)" by simp
    show ?thesis
      using c n 3 unfolding getCover_def Let_def m
      by (simp add: cover_scan_step cover_scan_done)
  qed
qed


lemma length_SwapU32 [simp]: "length (SwapU32 buf i) = length buf"
  by (simp add: SwapU32_def)

lemma SwapU32_other: "j < i \<or> i + 4 \<le> j \<Longrightarrow> SwapU32 buf i ! j = buf ! j"
  by (auto simp: SwapU32_def)

lemma field32_SwapU32: "i + 4 \<le> length buf \<Longrightarrow> field32 (SwapU32 buf i) i = ReadBeU32 buf i"
  by (simp add: field32_def SwapU32_def ReadBeU32_def)

lemma ReadBeU32_SwapU32_other:
  "j + 4 \<le> i \<or> i + 4 \<le> j \<Longrightarrow> ReadBeU32 (SwapU32 buf i) j = ReadBeU32 buf j"
  by (auto simp: ReadBeU32_def SwapU32_other)

lemma exth_record_fields:
  assumes "pos + 8 \<le> length buf"
  shows "field32 (SwapU32 (SwapU32 buf (pos + 4)) pos) pos = ReadBeU32 buf pos"
    and "field32 (SwapU32 (SwapU32 buf (pos + 4)) pos) (pos + 4) = ReadBeU32 buf (pos + 4)"
proof -
  show "field32 (SwapU32 (SwapU32 buf (pos + 4)) pos) pos = ReadBeU32 buf pos"
    using assms by (simp add: field32_SwapU32 ReadBeU32_SwapU32_other)
  have "field32 (SwapU32 (SwapU32 buf (pos + 4)) pos) (pos + 4) = field32 (SwapU32 buf (pos + 4)) (pos + 4)"
    by (simp add: field32_def SwapU32_other)
  then show "field32 (SwapU32 (SwapU32 buf (pos + 4)) pos) (pos + 4) = ReadBeU32 buf (pos + 4)"
    using assms by (simp add: field32_SwapU32)
qed

lemma exth_record_201:
  assumes "pos + 16 \<le> length buf" and "ReadBeU32 buf pos = 201"
  shows "exth_record buf pos b =
     Ok (SwapU32 (SwapU32 buf (pos + 4)) pos, pos + unat (ReadBeU32 buf (pos + 4)),
         b\<lparr>coverImage := sint (ReadBeU32 buf (pos + 8))\<rparr>)"
proof -
  have 8: "pos + 8 \<le> length buf" using assms(1) by simp
  have p: "ReadBeU32 (SwapU32 (SwapU32 buf (pos + 4)) pos) (pos + 8) = ReadBeU32 buf (pos + 8)"
    by (simp add: ReadBeU32_SwapU32_other)
  show ?thesis
    using assms unfolding exth_record_def Let_def exth_record_fields [OF 8] p
    by simp
qed

text \<open>
  Claim C7, as the code has it. A record of type 201 supplies the cover index: it sets
  \<^verbatim>\<open>coverImage\<close> to the big-endian value of its first four payload bytes. In a book whose
  image array has its \<^verbatim>\<open>imagesCount\<close> slots: if a cover index was supplied and points at a
  loaded image, \<^verbatim>\<open>getCover\<close> returns that image; if no index was supplied (\<^verbatim>\<open>coverImage\<close> is
  still \<^verbatim>\<open>-1\<close>), \<^verbatim>\<open>getCover\<close> returns the larger by byte length of the images in the first
  two image slots (\<^verbatim>\<open>std::min(imagesCount, 2)\<close>), the first of them when they are equal, and
  the null pointer when neither of the two slots holds an image. (What \<^verbatim>\<open>getCover\<close> returns
  for a supplied index that does not point at a loaded image is no part of this statement:
  the code returns \<^verbatim>\<open>&images[coverImage]\<close> with no check, where \<^verbatim>\<open>getImage\<close> checks the range
  and the slot.)
\<close>

theorem C7_getCover_selection:
  "(pos + 16 \<le> length buf \<and> ReadBeU32 buf pos = 201 \<longrightarrow>
      (\<exists>buf' pos'. exth_record buf pos b0 =
         Ok (buf', pos', b0\<lparr>coverImage := sint (ReadBeU32 buf (pos + 8))\<rparr>))) \<and>
   (length (images b) = imagesCount b \<longrightarrow>
      (0 \<le> coverImage b \<and> nat (coverImage b) < imagesCount b \<and>
       data (images b ! nat (coverImage b)) \<noteq> None \<and> len (images b ! nat (coverImage b)) \<noteq> 0 \<longrightarrow>
         getCover b = Ok (Some (nat (coverImage b)))) \<and>
      (coverImage b < 0 \<longrightarrow>
         getCover b =
           Ok (let l0 = (if 0 < imagesCount b \<and> data (images b ! 0) \<noteq> None then len (images b ! 0) else 0);
                   l1 = (if 1 < imagesCount b \<and> data (images b ! 1) \<noteq> None then len (images b ! 1) else 0)
               in if l0 = 0 \<and> l1 = 0 then None else if l0 < l1 then Some 1 else Some 0)))"
proof (intro conjI impI)
  assume "pos + 16 \<le> length buf \<and> ReadBeU32 buf pos = 201"
  then show "\<exists>buf' pos'. exth_record buf pos b0 =
         Ok (buf', pos', b0\<lparr>coverImage := sint (ReadBeU32 buf (pos + 8))\<rparr>)"
    by (simp add: exth_record_201)
next
  assume "length (images b) = imagesCount b"
    "0 \<le> coverImage b \<and> nat (coverImage b) < imagesCount b \<and>
       data (images b ! nat (coverImage b)) \<noteq> None \<and> len (images b ! nat (coverImage b)) \<noteq> 0"
  then show "getCover b = Ok (Some (nat (coverImage b)))"
    by (simp add: getCover_def)
next
  assume "length (images b) = imagesCount b" "coverImage b < 0"
  then show "getCover b =
           Ok (let l0 = (if 0 < imagesCount b \<and> data (images b ! 0) \<noteq> None then len (images b ! 0) else 0);
                   l1 = (if 1 < imagesCount b \<and> data (images b ! 1) \<noteq> None then len (images b ! 1) else 0)
               in if l0 = 0 \<and> l1 = 0 then None else if l0 < l1 then Some 1 else Some 0)"
    by (rule getCover_fallback)
qed

theorem C7_getCover_selection_witness:
  "(\<exists>buf' pos'. exth_record [0, 0, 0, 201, 0, 0, 0, 12, 0, 0, 0, 2, 0, 0, 0, 0] 0 MobiBook_new =
      Ok (buf', pos', MobiBook_new\<lparr>coverImage := 2\<rparr>)) \<and>
   getCover (MobiBook_new\<lparr>imagesCount := 3, images := [gif5, empty_slot, png8], coverImage := 2\<rparr>)
     = Ok (Some 2) \<and>
   getCover (MobiBook_new\<lparr>imagesCount := 3, images := [gif5, png8, empty_slot]\<rparr>) = Ok (Some 1) \<and>
   getCover (MobiBook_new\<lparr>imagesCount := 3, images := [gif5, empty_slot, png8]\<rparr>) = Ok (Some 0) \<and>
   getCover (MobiBook_new\<lparr>imagesCount := 2, images := [empty_slot, empty_slot]\<rparr>) = Ok None"
proof -
  have rd: "ReadBeU32 [0, 0, 0, 201, 0, 0, 0, 12, 0, 0, 0, 2, 0, 0, 0, 0] 0 = 201"
      "sint (ReadBeU32 [0, 0, 0, 201, 0, 0, 0, 12, 0, 0, 0, 2, 0, 0, 0, 0] (0 + 8)) = 2"
    by (simp_all add: ReadBeU32_def)
  have e: "\<exists>buf' pos'. exth_record [0, 0, 0, 201, 0, 0, 0, 12, 0, 0, 0, 2, 0, 0, 0, 0] 0 MobiBook_new =
      Ok (buf', pos', MobiBook_new\<lparr>coverImage := 2\<rparr>)"
    using C7_getCover_selection
      [where buf = "[0, 0, 0, 201, 0, 0, 0, 12, 0, 0, 0, 2, 0, 0, 0, 0]" and pos = 0 and ?b0.0 = MobiBook_new,
        THEN conjunct1]
      rd
    by simp
  have c2: "getCover (MobiBook_new\<lparr>imagesCount := 3, images := [gif5, empty_slot, png8], coverImage := 2\<rparr>)
     = Ok (Some 2)"
    using C7_getCover_selection
      [where b = "MobiBook_new\<lparr>imagesCount := 3, images := [gif5, empty_slot, png8], coverImage := 2\<rparr>",
        THEN conjunct2]
    by (simp add: png8_def)
  have c1: "getCover (MobiBook_new\<lparr>imagesCount := 3, images := [gif5, png8, empty_slot]\<rparr>) = Ok (Some 1)"
    using C7_getCover_selection
      [where b = "MobiBook_new\<lparr>imagesCount := 3, images := [gif5, png8, empty_slot]\<rparr>",
        THEN conjunct2]
    by (simp add: MobiBook_new_def gif5_def png8_def)
  have c3: "getCover (MobiBook_new\<lparr>imagesCount := 3, images := [gif5, empty_slot, png8]\<rparr>) = Ok (Some 0)"
    using C7_getCover_selection
      [where b = "MobiBook_new\<lparr>imagesCount := 3, images := [gif5, empty_slot, png8]\<rparr>",
        THEN conjunct2]
    by (simp add: MobiBook_new_def gif5_def empty_slot_def)
  have c0: "getCover (MobiBook_new\<lparr>imagesCount := 2, images := [empty_slot, empty_slot]\<rparr>) = Ok None"
    using C7_getCover_selection
      [where b = "MobiBook_new\<lparr>imagesCount := 2, images := [empty_slot, empty_slot]\<rparr>",
        THEN conjunct2]
    by (simp add: MobiBook_new_def empty_slot_def)
  from e c2 c1 c3 c0 show ?thesis by blast
qed

text \<open>
  Claim C7 as stated fails on \<open>no_index_file\<close>, which supplies no cover index. Its loaded
  images are a GIF of six bytes in slot 0 and a PNG of eight bytes in slot 2; slot 1 is empty.
  The larger of the first two loaded images is the PNG. \<^verbatim>\<open>getCover\<close> looks at the slots 0 and
  1 only and returns the GIF. When the read of the GIF fails as well, one image is loaded,
  the PNG in slot 2, and \<^verbatim>\<open>getCover\<close> returns the null pointer.
\<close>

theorem C7_getCover_first_two_slots_counterexample:
  "(case createFromFile 1 (replicate 6000 0) no_index_file of
      Ok b \<Rightarrow> coverImage b = - 1 \<and> imagesCount b = 3 \<and>
              data (images b ! 0) = Some [0x47, 0x49, 0x46, 0x38, 0x39, 0x61] \<and> len (images b ! 0) = 6 \<and>
              data (images b ! 1) = None \<and>
              data (images b ! 2) = Some [0x89, 0x50, 0x4E, 0x47, 0x0D, 0x0A, 0x1A, 0x0A] \<and>
              len (images b ! 2) = 8 \<and>
              getCover b = Ok (Some 0)
    | Fail \<Rightarrow> False
    | Undefined \<Rightarrow> False) \<and>
   (case createFromFile 1 (replicate 6000 0) (no_index_file\<lparr>io_error := [400]\<rparr>) of
      Ok b \<Rightarrow> coverImage b = - 1 \<and> imagesCount b = 3 \<and>
              data (images b ! 0) = None \<and> data (images b ! 1) = None \<and>
              data (images b ! 2) = Some [0x89, 0x50, 0x4E, 0x47, 0x0D, 0x0A, 0x1A, 0x0A] \<and>
              len (images b ! 2) = 8 \<and>
              getCover b = Ok None
    | Fail \<Rightarrow> False
    | Undefined \<Rightarrow> False)"
  by code_simp

section \<open>Properties of the document and the metadata\<close>

lemma readRecord_doc [simp]: "readRecord f (b\<lparr>doc := x\<rparr>) n = readRecord f b n"
  by (simp add: readRecord_def getRecordSize_def)

lemma record_text_doc [simp]: "record_text stack buf f (b\<lparr>doc := x\<rparr>) i = record_text stack buf f b i"
  by (simp add: record_text_def Let_def cong: outcome.case_cong option.case_cong if_cong)

lemma loadDocument_loop_in_order:
  "loadDocument_loop stack buf f n b i = Ok b' \<Longrightarrow>
   \<exists>texts. length texts = n + 1 - i \<and>
     (\<forall>k < n + 1 - i. record_text stack buf f b (i + k) = Ok (texts ! k)) \<and>
     b' = b\<lparr>doc := doc b @ concat texts\<rparr>"
proof (induction stack buf f n b i rule: loadDocument_loop.induct)
  case (1 stack buf f n b i)
  show ?case
  proof (cases "i \<le> n")
    case False
    then have "b' = b" using "1.prems" by (simp add: loadDocument_loop.simps)
    then show ?thesis using False by simp
  next
    case True
    show ?thesis
    proof (cases "record_text stack buf f b i")
      case (Ok t)
      let ?b1 = "b\<lparr>doc := doc b @ t\<rparr>"
      have step: "loadDocRecordIntoBuffer stack buf f b i = Ok ?b1"
        by (simp add: loadDocRecordIntoBuffer_def Ok)
      have "loadDocument_loop stack buf f n ?b1 (i + 1) = Ok b'"
        using "1.prems" True step by (simp add: loadDocument_loop.simps)
      then obtain texts where ts: "length texts = n + 1 - (i + 1)"
          "\<forall>k < n + 1 - (i + 1). record_text stack buf f ?b1 (i + 1 + k) = Ok (texts ! k)"
          "b' = ?b1\<lparr>doc := doc ?b1 @ concat texts\<rparr>"
        using "1.IH" [OF True step] by blast
      have len: "length (t # texts) = n + 1 - i"
        using ts(1) True by simp
      have each: "\<forall>k < n + 1 - i. record_text stack buf f b (i + k) = Ok ((t # texts) ! k)"
      proof (intro allI impI)
        fix k assume k: "k < n + 1 - i"
        show "record_text stack buf f b (i + k) = Ok ((t # texts) ! k)"
        proof (cases k)
          case 0
          then show ?thesis using Ok by simp
        next
          case (Suc j)
          then have "j < n + 1 - (i + 1)" using k by simp
          then have "record_text stack buf f ?b1 (i + 1 + j) = Ok (texts ! j)"
            using ts(2) by blast
          then show ?thesis using Suc by simp
        qed
      qed
      have "b' = b\<lparr>doc := doc b @ concat (t # texts)\<rparr>"
        using ts(3) by simp
      with len each show ?thesis by blast
    next
      case Fail
      then show ?thesis
        using "1.prems" True by (simp add: loadDocument_loop.simps loadDocRecordIntoBuffer_def)
    next
      case Undefined
      then show ?thesis
        using "1.prems" True by (simp add: loadDocument_loop.simps loadDocRecordIntoBuffer_def)
    qed
  qed
qed

text \<open>
  What does hold of the body: when \<^verbatim>\<open>loadDocument\<close> succeeds, the body is what the records
  \<open>1..docRecCount\<close> give, each stripped of its trailers and decompressed, one after the
  other, and nothing else in the book has changed.
\<close>

lemma loadDocument_in_order:
  assumes "loadDocument stack buf f b = Ok b'"
  shows "\<exists>texts. length texts = docRecCount b \<and>
     (\<forall>k < docRecCount b. record_text stack buf f b (k + 1) = Ok (texts ! k)) \<and>
     b' = b\<lparr>doc := doc b @ concat texts\<rparr>"
proof -
  obtain texts where "length texts = docRecCount b + 1 - 1"
      "\<forall>k < docRecCount b + 1 - 1. record_text stack buf f b (1 + k) = Ok (texts ! k)"
      "b' = b\<lparr>doc := doc b @ concat texts\<rparr>"
    using loadDocument_loop_in_order [OF assms [unfolded loadDocument_def]] by blast
  then show ?thesis by (intro exI [of _ texts]) (simp add: add.commute)
qed

text \<open>
  Claim C1 says that the body of the book \<^verbatim>\<open>open()\<close> returns has the length the PalmDOC
  header declares. \<^verbatim>\<open>loadDocument\<close> states that as an assertion only
  (\<^verbatim>\<open>assert(docUncompressedSize == doc.length())\<close>) and returns \<^verbatim>\<open>true\<close> whatever the
  length: \<open>hello_file\<close> declares 100 bytes, its one text record has 14, and \<^verbatim>\<open>open()\<close>
  returns a book with a body of 14 bytes.
\<close>

theorem C1_body_length_not_checked:
  "(case createFromFile 1 (replicate 6000 0) hello_file of
      Ok b \<Rightarrow> doc b = bytes_of ''Hello, world!'' @ [10] \<and> length (doc b) = 14 \<and>
              docUncompressedSize b = 100
    | Fail \<Rightarrow> False
    | Undefined \<Rightarrow> False)"
  by code_simp

section \<open>Properties of the EXTH records\<close>

text \<open>
  What does hold of the loop over the EXTH records: a record moves the position on by its
  \<^verbatim>\<open>len\<close> field, whatever its type; a record of a type other than 100, 101, 201 and 503
  leaves the book as it was; a record of type 100 appends the C string at its payload to the
  author and one of type 503 replaces the title by it. The C string is the payload exactly
  when the payload holds no NUL and the byte after it is one.
\<close>

lemma exth_record_advances:
  assumes "exth_record buf pos b = Ok (buf', pos', b')"
  shows "pos' = pos + unat (ReadBeU32 buf (pos + 4)) \<and> buf' = SwapU32 (SwapU32 buf (pos + 4)) pos"
proof -
  have 8: "pos + 8 \<le> length buf"
    using assms by (auto simp: exth_record_def split: if_splits)
  show ?thesis
    using assms unfolding exth_record_def Let_def exth_record_fields [OF 8]
    by (auto split: if_splits outcome.splits)
qed

lemma exth_record_unknown:
  assumes "pos + 8 \<le> length buf"
    and "unat (ReadBeU32 buf pos) \<notin> {100, 101, 201, 503}"
  shows "exth_record buf pos b =
     Ok (SwapU32 (SwapU32 buf (pos + 4)) pos, pos + unat (ReadBeU32 buf (pos + 4)), b)"
  using assms unfolding exth_record_def Let_def exth_record_fields [OF assms(1)]
  by simp

lemma exth_record_author:
  assumes "pos + 8 \<le> length buf" and "unat (ReadBeU32 buf pos) = 100"
    and "exth_record buf pos b = Ok (buf', pos', b')"
  shows "c_str buf' (pos + 8) = Ok (drop (length (author b)) (author b')) \<and>
         author b' = author b @ drop (length (author b)) (author b')"
  using assms(2,3) unfolding exth_record_def Let_def exth_record_fields [OF assms(1)]
  by (auto split: if_splits outcome.splits)

lemma exth_record_title:
  assumes "pos + 8 \<le> length buf" and "unat (ReadBeU32 buf pos) = 503"
    and "exth_record buf pos b = Ok (buf', pos', b')"
  shows "c_str buf' (pos + 8) = Ok (title b')"
  using assms(2,3) unfolding exth_record_def Let_def exth_record_fields [OF assms(1)]
  by (auto split: if_splits outcome.splits)

lemma c_str_exact:
  assumes "p + n < length buf" and "0 \<notin> set (take n (drop p buf))" and "buf ! (p + n) = 0"
  shows "c_str buf p = Ok (take n (drop p buf))"
proof -
  have "drop n (drop p buf) = drop (p + n) buf"
    by (simp add: add.commute)
  also have "\<dots> = 0 # drop (Suc (p + n)) buf"
    using assms(1,3) by (simp add: Cons_nth_drop_Suc [symmetric])
  finally have tl: "drop n (drop p buf) = 0 # drop (Suc (p + n)) buf" .
  have split: "drop p buf = take n (drop p buf) @ 0 # drop (Suc (p + n)) buf"
    using append_take_drop_id [of n "drop p buf"] tl by simp
  have mem: "0 \<in> set (drop p buf)"
    by (subst split) simp
  have nz: "\<And>x. x \<in> set (take n (drop p buf)) \<Longrightarrow> x \<noteq> 0"
    using assms(2) by auto
  have "takeWhile (\<lambda>c. c \<noteq> 0) (take n (drop p buf) @ 0 # drop (Suc (p + n)) buf)
      = take n (drop p buf)"
    using nz by (simp add: takeWhile_append2)
  then have "takeWhile (\<lambda>c. c \<noteq> 0) (drop p buf) = take n (drop p buf)"
    using split by simp
  with mem show ?thesis by (simp add: c_str_def)
qed

text \<open>
  Claim C8 says that a record of type 100 appends exactly its \<open>len - 8\<close> payload bytes to
  the author. The code appends a C string (\<^verbatim>\<open>author.append((char*) &rec->data /*,
  rec->len*/)\<close>): the bytes from the start of the payload to the next NUL, wherever that is.
  In \<open>author_file\<close> the two records of type 100 carry \<^verbatim>\<open>A\<close>, NUL, \<^verbatim>\<open>B\<close> and \<^verbatim>\<open>Jane\<close>: the
  first is cut at its NUL, the second runs on through the full name that follows the table,
  and the author is \<^verbatim>\<open>AJaneTitle\<close>, not the seven payload bytes.
\<close>

theorem C8_author_is_a_C_string:
  "(case createFromFile 1 (replicate 6000 0) author_file of
      Ok b \<Rightarrow> author b = bytes_of ''AJaneTitle'' \<and> title b = bytes_of ''Title''
    | Fail \<Rightarrow> False
    | Undefined \<Rightarrow> False)"
  by code_simp

end
